theory Spec2Isabelle
  imports Complex_Main "HOL-Library.Word"
begin

section \<open>The GLB container: encoder and validator\<close>

text \<open>
  An \<open>ArrayBuffer\<close> (and every \<open>Uint8Array\<close> view of one) is a list of bytes.
  A new buffer is filled with zero bytes.
\<close>

type_synonym byte = "8 word"

definition new_buffer :: "nat \<Rightarrow> byte list" where
  "new_buffer n = replicate n 0"

text \<open>
  \<open>target.set(source, offset)\<close> of a typed array copies \<open>source\<close> into \<open>target\<close>
  from \<open>offset\<close> on. The platform raises a RangeError when the source does not fit;
  in \<open>createGLBBuffer\<close> every target is allocated with room for what is copied into
  it (lemma \<open>createGLBBuffer_layout\<close> below), so the model keeps the copy only.
\<close>

definition set_at :: "byte list \<Rightarrow> byte list \<Rightarrow> nat \<Rightarrow> byte list" where
  "set_at target source offset =
     take offset target @ source @ drop (offset + length source) target"

text \<open>
  \<open>DataView.setUint32(offset, value, false)\<close>: the value is taken modulo \<open>2^32\<close> and
  stored big-endian (the third argument \<open>false\<close> of the source).
\<close>

definition uint32_bytes :: "nat \<Rightarrow> byte list" where
  "uint32_bytes v =
     [of_nat (v div 2 ^ 24 mod 256), of_nat (v div 2 ^ 16 mod 256),
      of_nat (v div 2 ^ 8 mod 256), of_nat (v mod 256)]"

definition setUint32 :: "byte list \<Rightarrow> nat \<Rightarrow> nat \<Rightarrow> byte list" where
  "setUint32 view offset v = set_at view (uint32_bytes v) offset"

text \<open>
  \<open>DataView.getUint32(offset, false)\<close> raises a RangeError when the four bytes are not
  all inside the buffer.
\<close>

datatype js_error = RangeError

definition getUint32 :: "byte list \<Rightarrow> nat \<Rightarrow> js_error + nat" where
  "getUint32 view offset =
     (if offset + 4 \<le> length view
      then Inr (unat (view ! offset) * 2 ^ 24 + unat (view ! (offset + 1)) * 2 ^ 16
                + unat (view ! (offset + 2)) * 2 ^ 8 + unat (view ! (offset + 3)))
      else Inl RangeError)"

text \<open>
  \<open>createGLBBuffer\<close> of \<open>src/js/face-detection.js\<close>. \<open>JSON.stringify\<close> and
  \<open>TextEncoder.encode\<close> belong to the platform: their result \<open>jsonBuffer\<close>, the UTF-8
  bytes of the scene description, is the argument of the model.
\<close>

definition createGLBBuffer :: "byte list \<Rightarrow> byte list" where
  "createGLBBuffer jsonBuffer =
     (let jsonPadding = (4 - length jsonBuffer mod 4) mod 4;
          paddedJsonBuffer = set_at (new_buffer (length jsonBuffer + jsonPadding)) jsonBuffer 0;
          header = new_buffer 12;
          header = setUint32 header 0 0x46546C67;
          header = setUint32 header 4 2;
          header = setUint32 header 8 (12 + length paddedJsonBuffer);
          jsonChunkHeader = new_buffer 8;
          jsonChunkHeader = setUint32 jsonChunkHeader 0 (length paddedJsonBuffer);
          jsonChunkHeader = setUint32 jsonChunkHeader 4 0x4E4F534A;
          totalLength = length header + length jsonChunkHeader + length paddedJsonBuffer;
          glbView = new_buffer totalLength;
          offset = 0;
          glbView = set_at glbView header offset;
          offset = offset + length header;
          glbView = set_at glbView jsonChunkHeader offset;
          offset = offset + length jsonChunkHeader;
          glbView = set_at glbView paddedJsonBuffer offset
      in glbView)"

text \<open>
  The result object of the validators: \<open>{valid: true, size}\<close> or
  \<open>{valid: false, error}\<close>.
\<close>

datatype validation = Valid nat | Invalid string

text \<open>
  \<open>validateGLB\<close> of \<open>src/backend/ai/glb-generator.js\<close>. The body runs inside
  \<open>try\<close>; the \<open>catch\<close> turns an exception into \<open>{valid: false, error: error.message}\<close>.
  The text of a RangeError's message is chosen by the JavaScript engine, so the model
  takes it as the parameter \<open>message\<close>. The statements inside \<open>try\<close> are the same
  in the exporter's \<open>validateGLB\<close> further down, so both use \<open>validate_body\<close>.
\<close>

definition validate_body :: "byte list \<Rightarrow> js_error + validation" where
  "validate_body buffer =
     (case getUint32 buffer 0 of
        Inl e \<Rightarrow> Inl e
      | Inr magic \<Rightarrow>
          if magic \<noteq> 0x46546C67 then Inr (Invalid ''Invalid GLB magic number'')
          else (case getUint32 buffer 4 of
             Inl e \<Rightarrow> Inl e
           | Inr version \<Rightarrow>
               if version \<noteq> 2 then Inr (Invalid ''Unsupported GLB version'')
               else (case getUint32 buffer 8 of
                  Inl e \<Rightarrow> Inl e
                | Inr totalLength \<Rightarrow>
                    if totalLength \<noteq> length buffer then Inr (Invalid ''Invalid GLB length'')
                    else Inr (Valid (length buffer)))))"

definition validateGLB :: "(js_error \<Rightarrow> string) \<Rightarrow> byte list \<Rightarrow> validation" where
  "validateGLB message glbBuffer =
     (case validate_body glbBuffer of
        Inl error \<Rightarrow> Invalid (message error)
      | Inr result \<Rightarrow> result)"

text \<open>
  The exporter of \<open>src/js/face-detection.js\<close> keeps the encoded file in its field
  \<open>glbData\<close> (\<open>null\<close> until an export has run); \<open>convertToGLB\<close> builds that object
  and the exporter's own \<open>validateGLB()\<close> reads it.
\<close>

text \<open>The field \<open>size\<close> of the source is \<open>byteSize\<close> here.\<close>

record glb_data =
  buffer :: "byte list"
  byteSize :: nat
  format :: string

record GLBExporter =
  glbData :: "glb_data option"

definition convertToGLB :: "byte list \<Rightarrow> glb_data" where
  "convertToGLB jsonBuffer =
     (let glbBuffer = createGLBBuffer jsonBuffer
      in \<lparr>buffer = glbBuffer, byteSize = length glbBuffer, format = ''GLB''\<rparr>)"

definition exporter_validateGLB :: "(js_error \<Rightarrow> string) \<Rightarrow> GLBExporter \<Rightarrow> validation" where
  "exporter_validateGLB message this =
     (case glbData this of
        None \<Rightarrow> Invalid ''No GLB data''
      | Some d \<Rightarrow>
          (case validate_body (buffer d) of
             Inl error \<Rightarrow> Invalid (message error)
           | Inr result \<Rightarrow> result))"

section \<open>The face mesh builder of \<open>src/js/3d-mesh-generator.js\<close>\<close>

text \<open>
  JavaScript numbers are idealised as real numbers in everything that follows: the
  rounding of IEEE doubles (and of the 32-bit floats of a \<open>Float32Array\<close>) and
  overflow to infinity are not modelled. Where the source can read \<open>undefined\<close> the
  model says so explicitly.

  A landmark as the face detector delivers it: \<open>x\<close> and \<open>y\<close> are numbers, \<open>z\<close> may be
  absent (the source reads it as \<open>landmark.z || 0\<close>).
\<close>

record landmark =
  lx :: real
  ly :: real
  lz :: "real option"

text \<open>
  \<open>faceData.landmarks\<close> holds up to three views; each is an array of landmarks or is
  missing.
\<close>

record FaceData =
  front :: "landmark list option"
  left :: "landmark list option"
  right :: "landmark list option"

text \<open>
  The attributes of the \<open>THREE.BufferGeometry\<close> that the claims read: the position
  array, the uv array and the index (\<open>faceIndex\<close> here). The normal attribute is
  computed by the THREE library (\<open>Vector3\<close> arithmetic and \<open>computeVertexNormals\<close>)
  and is not modelled.
\<close>

record BufferGeometry =
  position :: "real list"
  uv :: "real list"
  faceIndex :: "nat list"

datatype mesh_error = NoFaceLandmarks

definition faceRegions :: "nat list list" where
  "faceRegions =
    [ \<comment> \<open>faceContour\<close>
      [10, 338, 297, 332, 284, 251, 389, 356, 454, 323, 361, 288, 397, 365, 379, 378, 400,
       377, 152, 148, 176, 149, 150, 136, 172, 58, 132, 93, 234, 127, 162, 21, 54, 103, 67,
       109],
      \<comment> \<open>leftEyebrow\<close>
      [70, 63, 105, 66, 107, 55, 65, 52, 53, 46],
      \<comment> \<open>rightEyebrow\<close>
      [296, 334, 293, 300, 276, 283, 282, 295, 285, 336],
      \<comment> \<open>leftEye\<close>
      [33, 7, 163, 144, 145, 153, 154, 155, 133, 173, 157, 158, 159, 160, 161, 246],
      \<comment> \<open>rightEye\<close>
      [362, 382, 381, 380, 374, 373, 390, 249, 263, 466, 388, 387, 386, 385, 384, 398],
      \<comment> \<open>nose\<close>
      [1, 2, 5, 4, 6, 19, 20, 94, 125, 141, 235, 236, 3, 51, 48, 115, 131, 134, 102, 49,
       220, 305, 281, 360, 279, 331, 294, 358, 327, 326, 2, 97, 98, 129],
      \<comment> \<open>mouth\<close>
      [61, 84, 17, 314, 405, 320, 307, 375, 321, 308, 324, 318, 13, 82, 81, 80, 78, 95, 88,
       178, 87, 14, 317, 402, 318, 324, 308, 415, 310, 311, 312] ]"

text \<open>
  The fan triangulation of one region:
  \<open>for (let i = 1; i < validIndices.length - 1; i++)
       indices.push(validIndices[0], validIndices[i], validIndices[i + 1])\<close>.
  The loop condition is written \<open>i + 1 < length\<close>, which is the same on the integers
  and avoids the truncating subtraction of \<open>nat\<close>.
\<close>

function fan_loop :: "nat list \<Rightarrow> nat \<Rightarrow> nat list \<Rightarrow> nat list" where
  "fan_loop validIndices i indices =
     (if i + 1 < length validIndices
      then fan_loop validIndices (i + 1)
             (indices @ [validIndices ! 0, validIndices ! i, validIndices ! (i + 1)])
      else indices)"
  by pat_completeness auto
termination
  by (relation "measure (\<lambda>(validIndices, i, indices). length validIndices - i)") auto

declare fan_loop.simps [simp del]

definition region_step :: "landmark list \<Rightarrow> nat list \<Rightarrow> nat list \<Rightarrow> nat list" where
  "region_step lms indices regionIndices =
     (let validIndices = filter (\<lambda>i. i < length lms) regionIndices
      in if length validIndices \<ge> 3 then fan_loop validIndices 1 indices else indices)"

text \<open>The distance test of the proximity pass, on the \<open>x\<close> and \<open>y\<close> of two landmarks.\<close>

definition dist2d :: "landmark \<Rightarrow> landmark \<Rightarrow> real" where
  "dist2d p q = sqrt ((lx p - lx q) ^ 2 + (ly p - ly q) ^ 2)"

definition step :: nat where
  "step = 5"

text \<open>
  \<open>addGeneralFaceTriangulation\<close>: the body of the inner loop (\<open>try_triangle\<close>), the
  inner loop over \<open>j\<close> and the outer loop over \<open>i\<close>. The reads \<open>landmarks[i]\<close>,
  \<open>landmarks[j]\<close> and \<open>landmarks[k]\<close> are in range by the loop conditions and the test
  \<open>k < landmarks.length\<close>. The conditions \<open>i < landmarks.length - step\<close> and
  \<open>j < landmarks.length - step\<close> are written with the \<open>step\<close> on the left.
\<close>

definition try_triangle :: "landmark list \<Rightarrow> nat \<Rightarrow> nat \<Rightarrow> nat list \<Rightarrow> nat list" where
  "try_triangle lms i j indices =
     (let k = j + step
      in if k < length lms
         then (let p1 = lms ! i; p2 = lms ! j; p3 = lms ! k;
                   dist12 = dist2d p1 p2;
                   dist23 = dist2d p2 p3;
                   dist31 = dist2d p3 p1
               in if dist12 < 0.2 \<and> dist23 < 0.2 \<and> dist31 < 0.2
                  then indices @ [i, j, k] else indices)
         else indices)"

function inner_loop :: "landmark list \<Rightarrow> nat \<Rightarrow> nat \<Rightarrow> nat list \<Rightarrow> nat list" where
  "inner_loop lms i j indices =
     (if j + step < length lms
      then inner_loop lms i (j + step) (try_triangle lms i j indices)
      else indices)"
  by pat_completeness auto
termination
  by (relation "measure (\<lambda>(lms, i, j, indices). length lms - j)") (auto simp: step_def)

declare inner_loop.simps [simp del]

function outer_loop :: "landmark list \<Rightarrow> nat \<Rightarrow> nat list \<Rightarrow> nat list" where
  "outer_loop lms i indices =
     (if i + step < length lms
      then outer_loop lms (i + step) (inner_loop lms i (i + step) indices)
      else indices)"
  by pat_completeness auto
termination
  by (relation "measure (\<lambda>(lms, i, indices). length lms - i)") (auto simp: step_def)

declare outer_loop.simps [simp del]

definition addGeneralFaceTriangulation :: "nat list \<Rightarrow> landmark list \<Rightarrow> nat list" where
  "addGeneralFaceTriangulation indices lms = outer_loop lms 0 indices"

definition createFaceIndices :: "landmark list \<Rightarrow> nat list" where
  "createFaceIndices lms =
     (let indices = foldl (region_step lms) [] faceRegions
      in addGeneralFaceTriangulation indices lms)"

text \<open>
  \<open>createFaceGeometry\<close>. \<open>front || left || right\<close> takes the first view that is
  present; an array is truthy in JavaScript even when it is empty. Only a missing
  view list raises \<open>Error('No face landmarks available')\<close>.
\<close>

definition primaryLandmarks :: "FaceData \<Rightarrow> landmark list option" where
  "primaryLandmarks faceData =
     (case front faceData of
        Some lms \<Rightarrow> Some lms
      | None \<Rightarrow> (case left faceData of
                   Some lms \<Rightarrow> Some lms
                 | None \<Rightarrow> right faceData))"

definition vertex_of :: "landmark \<Rightarrow> real list" where
  "vertex_of l =
     (let x = (lx l - 0.5) * 2;
          y = - (ly l - 0.5) * 2;
          z = (case lz l of Some v \<Rightarrow> v | None \<Rightarrow> 0)
      in [x, y, z])"

definition createFaceGeometry :: "FaceData \<Rightarrow> mesh_error + BufferGeometry" where
  "createFaceGeometry faceData =
     (case primaryLandmarks faceData of
        None \<Rightarrow> Inl NoFaceLandmarks
      | Some lms \<Rightarrow>
          Inr \<lparr>position = concat (map vertex_of lms),
               uv = concat (map (\<lambda>l. [lx l, ly l]) lms),
               faceIndex = createFaceIndices lms\<rparr>)"

text \<open>
  The generator object: \<open>geometry\<close> is \<open>null\<close> until \<open>generateFaceMesh\<close> has run;
  \<open>mesh\<close> says whether the \<open>THREE.Mesh\<close> exists (it refers to the same geometry
  object). An exception of \<open>createFaceGeometry\<close> leaves both untouched.
\<close>

record FaceMeshGenerator =
  geometry :: "BufferGeometry option"
  mesh :: bool

definition generateFaceMesh :: "FaceMeshGenerator \<Rightarrow> FaceData \<Rightarrow> mesh_error + FaceMeshGenerator" where
  "generateFaceMesh this faceData =
     (case createFaceGeometry faceData of
        Inl e \<Rightarrow> Inl e
      | Inr g \<Rightarrow> Inr (this\<lparr>geometry := Some g, mesh := True\<rparr>))"

section \<open>The expression deformer of \<open>src/js/3d-mesh-generator.js\<close>\<close>

record Expressions =
  smile :: bool
  frown :: bool
  raisedEyebrows :: bool
  squint :: bool
  surprise :: bool

text \<open>
  One step of the four \<open>forEach\<close> loops: the y coordinate of vertex \<open>index\<close> becomes
  the original one plus \<open>offset\<close>, when it lies inside the array.
  \<open>applyExpressions\<close> passes a copy of \<open>positions\<close> as \<open>originalPositions\<close>, so
  the two have the same length and the read is in range.
\<close>

definition move_y :: "real \<Rightarrow> real list \<Rightarrow> real list \<Rightarrow> nat \<Rightarrow> real list" where
  "move_y offset originalPositions positions index =
     (if index * 3 + 1 < length positions
      then (let yIndex = index * 3 + 1
            in positions[yIndex := originalPositions ! yIndex + offset])
      else positions)"

definition mouthCornerIndices :: "nat list" where
  "mouthCornerIndices = [61, 291]"

definition eyebrowIndices :: "nat list" where
  "eyebrowIndices =
     [70, 63, 105, 66, 107, 55, 65, 52, 53, 46,
      296, 334, 293, 300, 276, 283, 282, 295, 285, 336]"

definition eyeIndices :: "nat list" where
  "eyeIndices =
     [33, 7, 163, 144, 145, 153, 154, 155, 133, 173, 157, 158, 159, 160, 161, 246,
      362, 382, 381, 380, 374, 373, 390, 249, 263, 466, 388, 387, 386, 385, 384, 398]"

definition applySmile :: "real list \<Rightarrow> real list \<Rightarrow> real list" where
  "applySmile positions originalPositions =
     foldl (move_y 0.05 originalPositions) positions mouthCornerIndices"

definition applyFrown :: "real list \<Rightarrow> real list \<Rightarrow> real list" where
  "applyFrown positions originalPositions =
     foldl (move_y (- 0.05) originalPositions) positions mouthCornerIndices"

definition applyRaisedEyebrows :: "real list \<Rightarrow> real list \<Rightarrow> real list" where
  "applyRaisedEyebrows positions originalPositions =
     foldl (move_y 0.03 originalPositions) positions eyebrowIndices"

definition applySquint :: "real list \<Rightarrow> real list \<Rightarrow> real list" where
  "applySquint positions originalPositions =
     foldl (move_y (- 0.02) originalPositions) positions eyeIndices"

text \<open>
  \<open>applyExpressions\<close> works on \<open>this.geometry.attributes.position.array\<close> itself:
  the four functions write into that array, and the generator afterwards holds the
  changed array. \<open>originalPositions\<close> is the copy \<open>[...positions]\<close> taken at the start
  of the call. \<open>computeVertexNormals\<close> changes the normal attribute only.
\<close>

definition applyExpressions :: "FaceMeshGenerator \<Rightarrow> Expressions \<Rightarrow> FaceMeshGenerator" where
  "applyExpressions this expressions =
     (case geometry this of
        None \<Rightarrow> this
      | Some g \<Rightarrow>
          if \<not> mesh this then this
          else (let positions = position g;
                    originalPositions = positions;
                    positions = (if smile expressions
                                 then applySmile positions originalPositions else positions);
                    positions = (if frown expressions
                                 then applyFrown positions originalPositions else positions);
                    positions = (if raisedEyebrows expressions
                                 then applyRaisedEyebrows positions originalPositions
                                 else positions);
                    positions = (if squint expressions
                                 then applySquint positions originalPositions else positions)
                in this\<lparr>geometry := Some (g\<lparr>position := positions\<rparr>)\<rparr>))"

text \<open>What \<open>this.geometry.attributes.position.array\<close> holds (nothing without a geometry).\<close>

definition positions_of :: "FaceMeshGenerator \<Rightarrow> real list" where
  "positions_of this = (case geometry this of Some g \<Rightarrow> position g | None \<Rightarrow> [])"

text \<open>
  Two notions for stating what the deformer does. \<open>y_slots\<close> are the array slots
  \<open>index * 3 + 1\<close> of a list of vertex indices. \<open>deform\<close> is the array that
  \<open>applyExpressions\<close> leaves in the geometry, as a function of the array it finds
  there (lemma \<open>applyExpressions_deform\<close>).
\<close>

definition y_slots :: "nat list \<Rightarrow> nat set" where
  "y_slots idxs = (\<lambda>index. index * 3 + 1) ` set idxs"

definition deform :: "Expressions \<Rightarrow> real list \<Rightarrow> real list" where
  "deform e base =
     (let p = (if smile e then applySmile base base else base);
          p = (if frown e then applyFrown p base else p);
          p = (if raisedEyebrows e then applyRaisedEyebrows p base else p);
          p = (if squint e then applySquint p base else p)
      in p)"

text \<open>
  A generator whose mesh has 468 vertices, all at the origin, and the flag sets used
  in the examples.
\<close>

definition rest_generator :: FaceMeshGenerator where
  "rest_generator =
     \<lparr>geometry = Some \<lparr>position = replicate 1404 0, uv = replicate 936 0, faceIndex = []\<rparr>,
      mesh = True\<rparr>"

definition only_smile :: Expressions where
  "only_smile =
     \<lparr>smile = True, frown = False, raisedEyebrows = False, squint = False, surprise = False\<rparr>"

definition smile_and_frown :: Expressions where
  "smile_and_frown =
     \<lparr>smile = True, frown = True, raisedEyebrows = False, squint = False, surprise = False\<rparr>"

section \<open>The skin texture of \<open>src/js/3d-mesh-generator.js\<close>\<close>

text \<open>
  \<open>imageData.data\<close> is a \<open>Uint8ClampedArray\<close>, a list of bytes in the order R, G, B,
  A. Storing a number into it clamps the number to \<open>[0, 255]\<close> and rounds it to the
  nearest integer, a tie going to the even one (ECMAScript's \<open>ToUint8Clamp\<close>).
\<close>

definition ToUint8Clamp :: "real \<Rightarrow> byte" where
  "ToUint8Clamp v =
     (if v \<le> 0 then 0
      else if 255 \<le> v then 255
      else (let f = \<lfloor>v\<rfloor>
            in if real_of_int f + 1 / 2 < v then of_int (f + 1)
               else if v < real_of_int f + 1 / 2 then of_int f
               else if even f then of_int f else of_int (f + 1)))"

text \<open>
  \<open>data[i] = Math.max(0, Math.min(255, data[i] + noise))\<close>, for one channel.
\<close>

definition add_noise :: "real \<Rightarrow> byte \<Rightarrow> byte" where
  "add_noise noise c = ToUint8Clamp (max 0 (min 255 (real (unat c) + noise)))"

text \<open>
  \<open>Math.random\<close> is modelled by the sequence of its results: the call number \<open>k\<close>
  (counted from 0) returns \<open>random k\<close>, a number in \<open>[0, 1)\<close>.

  The noise loop of \<open>addSkinDetails\<close>,
  \<open>for (let i = 0; i < data.length; i += 4)\<close>, calls \<open>Math.random\<close> once in every
  round. The last three equations are the rounds of an array whose length is not a
  multiple of 4 (a write behind the end of a typed array is dropped); the data of an
  \<open>ImageData\<close> never has such a length.
\<close>

fun noise_loop :: "(nat \<Rightarrow> real) \<Rightarrow> nat \<Rightarrow> byte list \<Rightarrow> byte list" where
  "noise_loop random n (r # g # b # a # rest) =
     (let noise = (random n - 0.5) * 20
      in add_noise noise r # add_noise noise g # add_noise noise b # a
           # noise_loop random (Suc n) rest)"
| "noise_loop random n [r, g, b] =
     (let noise = (random n - 0.5) * 20
      in [add_noise noise r, add_noise noise g, add_noise noise b])"
| "noise_loop random n [r, g] =
     (let noise = (random n - 0.5) * 20
      in [add_noise noise r, add_noise noise g])"
| "noise_loop random n [r] =
     (let noise = (random n - 0.5) * 20
      in [add_noise noise r])"
| "noise_loop random n [] = []"

text \<open>
  \<open>addSkinDetails\<close>: the result is the image data that \<open>ctx.putImageData\<close> writes to
  the canvas at the end. The hundred gradient spots are drawn on the canvas by the
  platform and do not touch \<open>data\<close>.
\<close>

definition addSkinDetails :: "(nat \<Rightarrow> real) \<Rightarrow> byte list \<Rightarrow> byte list" where
  "addSkinDetails random data = noise_loop random 0 data"

text \<open>
  For comparison, the noise as the specification words it (``independent per-channel
  noise''): one call of \<open>Math.random\<close> for each of R, G and B. This definition follows
  the specification, not the source.
\<close>

fun spec_independent_noise :: "(nat \<Rightarrow> real) \<Rightarrow> nat \<Rightarrow> byte list \<Rightarrow> byte list" where
  "spec_independent_noise random n (r # g # b # a # rest) =
     add_noise ((random n - 0.5) * 20) r
       # add_noise ((random (n + 1) - 0.5) * 20) g
       # add_noise ((random (n + 2) - 0.5) * 20) b
       # a # spec_independent_noise random (n + 3) rest"
| "spec_independent_noise random n rest = rest"

text \<open>A sequence of random numbers for the examples: 0.75, 0.25, then 0.5 for ever.\<close>

definition example_random :: "nat \<Rightarrow> real" where
  "example_random k = (if k = 0 then 0.75 else if k = 1 then 0.25 else 0.5)"

section \<open>The mesh and its normals in \<open>src/backend/ai/glb-generator.js\<close>\<close>

text \<open>
  A landmark of the model's output, \<open>{x, y, z, index}\<close>, and the mesh object
  \<open>{vertices, faces, uvs, normals}\<close>.

  Inside \<open>calculateNormals\<close> a read behind the end of an array gives \<open>undefined\<close>,
  and arithmetic on \<open>undefined\<close> gives NaN. A number that may be missing in this way
  is a \<open>num\<close>: \<open>None\<close> stands for \<open>undefined\<close>, a hole of an array, or NaN, which
  all behave alike in the arithmetic and the comparison of this function.
\<close>

type_synonym num = "real option"

record output_landmark =
  ox :: real
  oy :: real
  oz :: real
  oindex :: nat

record mesh3d =
  mesh_vertices :: "real list"
  mesh_faces :: "nat list"
  mesh_uvs :: "real list"
  mesh_normals :: "num list"

definition num_op :: "(real \<Rightarrow> real \<Rightarrow> real) \<Rightarrow> num \<Rightarrow> num \<Rightarrow> num" where
  "num_op f a b =
     (case a of None \<Rightarrow> None
      | Some x \<Rightarrow> (case b of None \<Rightarrow> None | Some y \<Rightarrow> Some (f x y)))"

definition num_sqrt :: "num \<Rightarrow> num" where
  "num_sqrt a = (case a of None \<Rightarrow> None | Some x \<Rightarrow> Some (sqrt x))"

text \<open>\<open>length > 0\<close>; a comparison with NaN is false.\<close>

definition positive :: "num \<Rightarrow> bool" where
  "positive a = (case a of None \<Rightarrow> False | Some x \<Rightarrow> 0 < x)"

text \<open>
  \<open>faces[i] * 3\<close>: an array index, or NaN when \<open>faces[i]\<close> is missing. Reading
  \<open>vertices\<close> or \<open>normals\<close> at an index.
\<close>

definition face_slot :: "nat list \<Rightarrow> nat \<Rightarrow> nat option" where
  "face_slot faces i = (if i < length faces then Some (faces ! i * 3) else None)"

definition plus_slot :: "nat option \<Rightarrow> nat \<Rightarrow> nat option" where
  "plus_slot s d = (case s of None \<Rightarrow> None | Some i \<Rightarrow> Some (i + d))"

definition read_vertex :: "real list \<Rightarrow> nat option \<Rightarrow> num" where
  "read_vertex vertices s =
     (case s of None \<Rightarrow> None
      | Some i \<Rightarrow> if i < length vertices then Some (vertices ! i) else None)"

definition read_normal :: "num list \<Rightarrow> nat \<Rightarrow> num" where
  "read_normal normals i = (if i < length normals then normals ! i else None)"

text \<open>
  \<open>normals[s] += v\<close>. Inside the array the entry is replaced by the sum. Behind the
  end JavaScript extends the array: the new entry is \<open>undefined + v\<close>, that is NaN,
  and the entries in between are holes. With the index NaN the assignment sets a
  property of the array object and no entry changes.
\<close>

definition add_to :: "num list \<Rightarrow> nat option \<Rightarrow> num \<Rightarrow> num list" where
  "add_to normals s v =
     (case s of None \<Rightarrow> normals
      | Some i \<Rightarrow>
          if i < length normals then normals[i := num_op (+) (normals ! i) v]
          else normals @ replicate (i - length normals) None @ [None])"

definition add_normal :: "num list \<Rightarrow> nat option \<Rightarrow> num \<times> num \<times> num \<Rightarrow> num list" where
  "add_normal normals s normal =
     (case normal of (n0, n1, n2) \<Rightarrow>
        add_to (add_to (add_to normals s n0) (plus_slot s 1) n1) (plus_slot s 2) n2)"

text \<open>
  The body of the first loop of \<open>calculateNormals\<close>, for the triangle at \<open>faces[i]\<close>,
  in two parts: \<open>face_normal\<close> computes the cross product of the two edges and divides
  it by its length when that is greater than 0; \<open>face_step\<close> adds the result to the
  normals of the three corners.
\<close>

definition face_normal ::
  "real list \<Rightarrow> nat option \<Rightarrow> nat option \<Rightarrow> nat option \<Rightarrow> num \<times> num \<times> num" where
  "face_normal vertices i1 i2 i3 =
     (let v1x = read_vertex vertices i1;
          v1y = read_vertex vertices (plus_slot i1 1);
          v1z = read_vertex vertices (plus_slot i1 2);
          v2x = read_vertex vertices i2;
          v2y = read_vertex vertices (plus_slot i2 1);
          v2z = read_vertex vertices (plus_slot i2 2);
          v3x = read_vertex vertices i3;
          v3y = read_vertex vertices (plus_slot i3 1);
          v3z = read_vertex vertices (plus_slot i3 2);
          e1x = num_op (-) v2x v1x; e1y = num_op (-) v2y v1y; e1z = num_op (-) v2z v1z;
          e2x = num_op (-) v3x v1x; e2y = num_op (-) v3y v1y; e2z = num_op (-) v3z v1z;
          n0 = num_op (-) (num_op (*) e1y e2z) (num_op (*) e1z e2y);
          n1 = num_op (-) (num_op (*) e1z e2x) (num_op (*) e1x e2z);
          n2 = num_op (-) (num_op (*) e1x e2y) (num_op (*) e1y e2x);
          len = num_sqrt (num_op (+) (num_op (+) (num_op (*) n0 n0) (num_op (*) n1 n1))
                                     (num_op (*) n2 n2))
      in if positive len
         then (num_op (/) n0 len, num_op (/) n1 len, num_op (/) n2 len)
         else (n0, n1, n2))"

definition face_step :: "real list \<Rightarrow> nat list \<Rightarrow> nat \<Rightarrow> num list \<Rightarrow> num list" where
  "face_step vertices faces i normals =
     (let i1 = face_slot faces i;
          i2 = face_slot faces (i + 1);
          i3 = face_slot faces (i + 2);
          normal = face_normal vertices i1 i2 i3
      in add_normal (add_normal (add_normal normals i1 normal) i2 normal) i3 normal)"

function accumulate_loop :: "real list \<Rightarrow> nat list \<Rightarrow> nat \<Rightarrow> num list \<Rightarrow> num list" where
  "accumulate_loop vertices faces i normals =
     (if i < length faces
      then accumulate_loop vertices faces (i + 3) (face_step vertices faces i normals)
      else normals)"
  by pat_completeness auto
termination
  by (relation "measure (\<lambda>(vertices, faces, i, normals). length faces - i)") auto

declare accumulate_loop.simps [simp del]

text \<open>
  The body of the second loop: the three entries from \<open>i\<close> on are divided by their
  length when that length is greater than 0, and stay as they are otherwise. The
  length is a number only when all three entries are inside the array, so the three
  writes are in range.
\<close>

definition normalize_step :: "nat \<Rightarrow> num list \<Rightarrow> num list" where
  "normalize_step i normals =
     (let a = read_normal normals i;
          b = read_normal normals (i + 1);
          c = read_normal normals (i + 2);
          len = num_sqrt (num_op (+) (num_op (+) (num_op (*) a a) (num_op (*) b b))
                                     (num_op (*) c c))
      in if positive len
         then normals[i := num_op (/) a len, i + 1 := num_op (/) b len,
                      i + 2 := num_op (/) c len]
         else normals)"

function normalize_loop :: "nat \<Rightarrow> num list \<Rightarrow> num list" where
  "normalize_loop i normals =
     (if i < length normals then normalize_loop (i + 3) (normalize_step i normals)
      else normals)"
  by pat_completeness auto
termination
  by (relation "measure (\<lambda>(i, normals). length normals - i)")
    (auto simp: normalize_step_def Let_def)

declare normalize_loop.simps [simp del]

definition calculateNormals :: "real list \<Rightarrow> nat list \<Rightarrow> num list" where
  "calculateNormals vertices faces =
     (let normals = replicate (length vertices) (Some 0);
          normals = accumulate_loop vertices faces 0 normals
      in normalize_loop 0 normals)"

text \<open>
  \<open>generateFaceTopology\<close>:
  \<open>for (let i = 0; i < numVertices - 2; i += 3) faces.push(i, i + 1, i + 2)\<close>,
  with the condition written as \<open>i + 2 < numVertices\<close>.
\<close>

function topology_loop :: "nat \<Rightarrow> nat \<Rightarrow> nat list \<Rightarrow> nat list" where
  "topology_loop numVertices i faces =
     (if i + 2 < numVertices
      then topology_loop numVertices (i + 3) (faces @ [i, i + 1, i + 2])
      else faces)"
  by pat_completeness auto
termination
  by (relation "measure (\<lambda>(numVertices, i, faces). numVertices - i)") auto

declare topology_loop.simps [simp del]

definition generateFaceTopology :: "nat \<Rightarrow> nat list" where
  "generateFaceTopology numVertices = topology_loop numVertices 0 []"

definition generate3DMesh :: "output_landmark list \<Rightarrow> mesh3d" where
  "generate3DMesh lms =
     (let vertices = concat (map (\<lambda>l. [ox l, oy l, oz l]) lms);
          uvs = concat (map (\<lambda>l. [(ox l + 1) / 2, (oy l + 1) / 2]) lms);
          faces = generateFaceTopology (length lms);
          normals = calculateNormals vertices faces
      in \<lparr>mesh_vertices = vertices, mesh_faces = faces, mesh_uvs = uvs,
          mesh_normals = normals\<rparr>)"

text \<open>
  Two notions for stating what the normals are. \<open>component\<close> selects the x, y or z
  of a normal (number 0, 1 or 2). In the topology of \<open>generateFaceTopology\<close> triangle
  number \<open>t\<close> has the corners \<open>3t\<close>, \<open>3t + 1\<close> and \<open>3t + 2\<close>, whose coordinates start
  at the slots \<open>9t\<close>, \<open>9t + 3\<close> and \<open>9t + 6\<close>; \<open>triangle_normal\<close> is the face normal
  that the first loop computes for it.
\<close>

definition component :: "num \<times> num \<times> num \<Rightarrow> nat \<Rightarrow> num" where
  "component normal c =
     (if c = 0 then fst normal else if c = 1 then fst (snd normal) else snd (snd normal))"

definition triangle_normal :: "real list \<Rightarrow> nat \<Rightarrow> num \<times> num \<times> num" where
  "triangle_normal vertices t =
     face_normal vertices (Some (9 * t)) (Some (9 * t + 3)) (Some (9 * t + 6))"

text \<open>An array of \<open>m\<close> numbers, none of them missing.\<close>

definition all_numbers :: "nat \<Rightarrow> num list \<Rightarrow> bool" where
  "all_numbers m normals = (length normals = m \<and> None \<notin> set normals)"

text \<open>
  Four landmarks for the examples: the corners of a triangle in the plane \<open>z = 0\<close>
  and a fourth point that no triangle uses.
\<close>

definition corner_and_orphan :: "output_landmark list" where
  "corner_and_orphan =
     [\<lparr>ox = 0, oy = 0, oz = 0, oindex = 0\<rparr>, \<lparr>ox = 1, oy = 0, oz = 0, oindex = 1\<rparr>,
      \<lparr>ox = 0, oy = 1, oz = 0, oindex = 2\<rparr>, \<lparr>ox = 5, oy = 5, oz = 5, oindex = 3\<rparr>]"

section \<open>Facts about the encoder and the validator\<close>

lemma length_uint32_bytes: "length (uint32_bytes v) = 4"
  by (simp add: uint32_bytes_def)

lemma header_bytes:
  "setUint32 (setUint32 (setUint32 (new_buffer 12) 0 a) 4 b) 8 c
     = uint32_bytes a @ uint32_bytes b @ uint32_bytes c"
  by (simp add: setUint32_def set_at_def new_buffer_def uint32_bytes_def)

lemma chunk_header_bytes:
  "setUint32 (setUint32 (new_buffer 8) 0 a) 4 b = uint32_bytes a @ uint32_bytes b"
  by (simp add: setUint32_def set_at_def new_buffer_def uint32_bytes_def)

lemma padded_bytes:
  "set_at (new_buffer (length js + p)) js 0 = js @ replicate p 0"
  by (simp add: set_at_def new_buffer_def)

text \<open>
  The bytes of the encoded file, in order: magic, version, the length field, the chunk
  length, the chunk type, the JSON text and its padding.
\<close>

lemma createGLBBuffer_layout:
  "createGLBBuffer js =
     uint32_bytes 0x46546C67 @ uint32_bytes 2
       @ uint32_bytes (12 + (length js + (4 - length js mod 4) mod 4))
       @ uint32_bytes (length js + (4 - length js mod 4) mod 4) @ uint32_bytes 0x4E4F534A
       @ js @ replicate ((4 - length js mod 4) mod 4) 0"
  unfolding createGLBBuffer_def Let_def header_bytes chunk_header_bytes padded_bytes
  by (simp add: set_at_def new_buffer_def length_uint32_bytes)

lemma length_createGLBBuffer:
  "length (createGLBBuffer js) = 12 + 8 + (length js + (4 - length js mod 4) mod 4)"
  by (simp add: createGLBBuffer_layout length_uint32_bytes)

lemma unat_byte: "unat (of_nat (n mod 256) :: byte) = n mod 256"
  by (simp add: unat_of_nat)

lemma uint32_value:
  "(v div 2 ^ 24 mod 256) * 2 ^ 24 + (v div 2 ^ 16 mod 256) * 2 ^ 16
     + (v div 2 ^ 8 mod 256) * 2 ^ 8 + v mod 256 = v mod 2 ^ 32" for v :: nat
proof -
  have a: "v mod 2 ^ 32 = 2 ^ 24 * (v div 2 ^ 24 mod 256) + v mod 2 ^ 24"
    using mod_mult2_eq [of v "2 ^ 24" 256] by simp
  have b: "v mod 2 ^ 24 = 2 ^ 16 * (v div 2 ^ 16 mod 256) + v mod 2 ^ 16"
    using mod_mult2_eq [of v "2 ^ 16" 256] by simp
  have c: "v mod 2 ^ 16 = 2 ^ 8 * (v div 2 ^ 8 mod 256) + v mod 2 ^ 8"
    using mod_mult2_eq [of v "2 ^ 8" 256] by simp
  show ?thesis
    using a b c by simp
qed

text \<open>Reading back what \<open>setUint32\<close> stored gives the value modulo \<open>2^32\<close>.\<close>

lemma getUint32_uint32_bytes:
  "getUint32 (pre @ uint32_bytes v @ post) (length pre) = Inr (v mod 2 ^ 32)"
proof -
  have "getUint32 (pre @ uint32_bytes v @ post) (length pre)
      = Inr ((v div 2 ^ 24 mod 256) * 2 ^ 24 + (v div 2 ^ 16 mod 256) * 2 ^ 16
             + (v div 2 ^ 8 mod 256) * 2 ^ 8 + v mod 256)"
    by (simp add: getUint32_def uint32_bytes_def nth_append unat_byte)
  then show ?thesis
    by (simp only: uint32_value)
qed

lemma getUint32_magic: "getUint32 (createGLBBuffer js) 0 = Inr 0x46546C67"
  using getUint32_uint32_bytes [of "[]" "0x46546C67"]
  by (simp add: createGLBBuffer_layout)

lemma getUint32_version: "getUint32 (createGLBBuffer js) 4 = Inr 2"
  using getUint32_uint32_bytes [of "uint32_bytes 0x46546C67" 2]
  by (simp add: createGLBBuffer_layout length_uint32_bytes)

lemma getUint32_totalLength:
  "getUint32 (createGLBBuffer js) 8
     = Inr ((12 + (length js + (4 - length js mod 4) mod 4)) mod 2 ^ 32)"
  using getUint32_uint32_bytes [of "uint32_bytes 0x46546C67 @ uint32_bytes 2"
      "12 + (length js + (4 - length js mod 4) mod 4)"]
  by (simp add: createGLBBuffer_layout length_uint32_bytes)

text \<open>
  The length field holds \<open>12 + paddedJsonBuffer.length\<close>, the file is 8 bytes longer
  (the chunk header), and no wrap-around modulo \<open>2^32\<close> makes the two agree.
\<close>

lemma written_length_differs: "(12 + p) mod 2 ^ 32 \<noteq> 12 + 8 + p" for p :: nat
proof -
  have "(12 + p) mod 2 ^ 32 \<le> 12 + p"
    by (rule mod_less_eq_dividend)
  then show ?thesis
    by linarith
qed

lemma validate_body_createGLBBuffer:
  "validate_body (createGLBBuffer js) = Inr (Invalid ''Invalid GLB length'')"
  by (simp add: validate_body_def getUint32_magic getUint32_version getUint32_totalLength
      length_createGLBBuffer written_length_differs del: mod_mod_trivial)

text \<open>
  Claim C1 (round trip: the validator accepts every encoded buffer and reports the
  length recorded in the header). The code does otherwise: for the scene description
  \<open>{}\<close> (the two bytes \<open>0x7B 0x7D\<close>) both validators answer
  \<open>{valid: false, error: 'Invalid GLB length'}\<close> on the encoder's output. By
  \<open>validate_body_createGLBBuffer\<close> the same happens for every scene.
\<close>

theorem roundtrip_rejected_for_empty_object:
  "validateGLB message (createGLBBuffer [0x7B, 0x7D]) = Invalid ''Invalid GLB length''
   \<and> exporter_validateGLB message \<lparr>glbData = Some (convertToGLB [0x7B, 0x7D])\<rparr>
       = Invalid ''Invalid GLB length''"
  by (simp add: validateGLB_def exporter_validateGLB_def convertToGLB_def Let_def
      validate_body_createGLBBuffer)

text \<open>
  Claim C2 (the length field at byte offset 8 equals 12 + 8 + the padded JSON length).
  For the scene description \<open>{}\<close> the padded JSON text has 4 bytes and the file has
  \<open>12 + 8 + 4 = 24\<close> bytes, but the length field holds 16: the 8 bytes of the chunk
  header are not counted.
\<close>

theorem totalLength_field_for_empty_object:
  "getUint32 (createGLBBuffer [0x7B, 0x7D]) 8 = Inr 16
   \<and> length (createGLBBuffer [0x7B, 0x7D]) = 12 + 8 + 4"
  by (simp add: getUint32_totalLength length_createGLBBuffer)

text \<open>
  What follows the JSON text, for every scene: the chunk data starts at byte 20 with
  the JSON text unchanged, and every byte after it, up to the end of the file, is a
  padding byte of value \<open>0x00\<close>; there are \<open>(4 - length mod 4) mod 4\<close> of them.
\<close>

lemma createGLBBuffer_padding:
  "take (length js) (drop 20 (createGLBBuffer js)) = js
   \<and> drop (20 + length js) (createGLBBuffer js)
       = replicate ((4 - length js mod 4) mod 4) 0x00"
  by (simp add: createGLBBuffer_layout length_uint32_bytes)

text \<open>
  Claim C8 (every padding byte that brings the JSON chunk to a 4-byte boundary is
  \<open>0x20\<close>). The code does otherwise: for the scene description \<open>{}\<close> the chunk data
  is the two bytes of the JSON text followed by two padding bytes, and both padding
  bytes are \<open>0x00\<close>. By \<open>createGLBBuffer_padding\<close> the padding is \<open>0x00\<close> for every
  scene.
\<close>

theorem json_padding_not_space:
  "drop 20 (createGLBBuffer [0x7B, 0x7D]) = [0x7B, 0x7D, 0x00, 0x00]
   \<and> drop 20 (createGLBBuffer [0x7B, 0x7D]) \<noteq> [0x7B, 0x7D, 0x20, 0x20]"
proof -
  have two: "replicate 2 x = [x, x]" for x :: byte
    by (simp add: numeral_2_eq_2)
  show ?thesis
    by (simp add: createGLBBuffer_layout length_uint32_bytes two)
qed

text \<open>
  Claim C10 (the validators are total): whatever the bytes, also when fewer than the
  12 of the header, each validator returns \<open>{valid: true, size}\<close> or
  \<open>{valid: false, error}\<close> with a non-empty error text, provided the engine's
  RangeError carries a non-empty message. An exception raised by a read is a value
  \<open>Inl\<close> of \<open>validate_body\<close>, and the \<open>catch\<close> maps it to a result.
\<close>

theorem validateGLB_total:
  assumes "message RangeError \<noteq> []"
  shows "((\<exists>n. validateGLB message glbBuffer = Valid n)
          \<or> (\<exists>e. validateGLB message glbBuffer = Invalid e \<and> e \<noteq> []))
       \<and> ((\<exists>n. exporter_validateGLB message this = Valid n)
          \<or> (\<exists>e. exporter_validateGLB message this = Invalid e \<and> e \<noteq> []))"
proof -
  have body: "(\<exists>n. (case validate_body b of Inl error \<Rightarrow> Invalid (message error)
                      | Inr result \<Rightarrow> result) = Valid n)
            \<or> (\<exists>e. (case validate_body b of Inl error \<Rightarrow> Invalid (message error)
                      | Inr result \<Rightarrow> result) = Invalid e \<and> e \<noteq> [])" for b
  proof (cases "validate_body b")
    case (Inl error)
    then show ?thesis
      using assms by (cases error) simp
  next
    case (Inr result)
    then show ?thesis
      by (auto simp: validate_body_def split: sum.splits if_splits)
  qed
  have first: "(\<exists>n. validateGLB message glbBuffer = Valid n)
          \<or> (\<exists>e. validateGLB message glbBuffer = Invalid e \<and> e \<noteq> [])"
    using body [of glbBuffer] by (simp add: validateGLB_def)
  have second: "(\<exists>n. exporter_validateGLB message this = Valid n)
          \<or> (\<exists>e. exporter_validateGLB message this = Invalid e \<and> e \<noteq> [])"
  proof (cases "glbData this")
    case None
    then show ?thesis
      by (simp add: exporter_validateGLB_def)
  next
    case (Some d)
    then show ?thesis
      using body [of "buffer d"] by (simp add: exporter_validateGLB_def)
  qed
  from first second show ?thesis
    by (rule conjI)
qed

text \<open>
  The theorem at a buffer of three bytes, shorter than the header, and at an exporter
  that holds it; the message is the text V8 gives.
\<close>

theorem validateGLB_total_witness:
  "(\<lambda>e. ''Offset is outside the bounds of the DataView'') RangeError \<noteq> []
   \<and> validateGLB (\<lambda>e. ''Offset is outside the bounds of the DataView'') [0x67, 0x6C, 0x54]
       = Invalid ''Offset is outside the bounds of the DataView''
   \<and> ((\<exists>n. exporter_validateGLB (\<lambda>e. ''Offset is outside the bounds of the DataView'')
              \<lparr>glbData = Some \<lparr>buffer = [0x67, 0x6C, 0x54], byteSize = 3, format = ''GLB''\<rparr>\<rparr>
            = Valid n)
      \<or> (\<exists>e. exporter_validateGLB (\<lambda>e. ''Offset is outside the bounds of the DataView'')
              \<lparr>glbData = Some \<lparr>buffer = [0x67, 0x6C, 0x54], byteSize = 3, format = ''GLB''\<rparr>\<rparr>
            = Invalid e \<and> e \<noteq> []))"
proof -
  have h: "(\<lambda>e. ''Offset is outside the bounds of the DataView'') RangeError \<noteq> []"
    by simp
  have v: "validateGLB (\<lambda>e. ''Offset is outside the bounds of the DataView'') [0x67, 0x6C, 0x54]
       = Invalid ''Offset is outside the bounds of the DataView''"
    by (simp add: validateGLB_def validate_body_def getUint32_def)
  show ?thesis
    using h v validateGLB_total [OF h, of "[0x67, 0x6C, 0x54]"
        "\<lparr>glbData = Some \<lparr>buffer = [0x67, 0x6C, 0x54], byteSize = 3, format = ''GLB''\<rparr>\<rparr>"]
    by simp
qed


section \<open>Facts about the mesh builder\<close>

lemma length_vertices: "length (concat (map vertex_of lms)) = 3 * length lms"
  by (induction lms) (simp_all add: vertex_of_def)

text \<open>The fan triangulation emits only indices of the region it is given.\<close>

lemma fan_loop_subset:
  "set (fan_loop validIndices i indices) \<subseteq> set indices \<union> set validIndices"
proof (induction validIndices i indices rule: fan_loop.induct)
  case (1 validIndices i indices)
  show ?case
  proof (cases "i + 1 < length validIndices")
    case True
    then have "0 < length validIndices" "i < length validIndices"
      by linarith+
    with True have "validIndices ! 0 \<in> set validIndices" "validIndices ! i \<in> set validIndices"
      "validIndices ! (i + 1) \<in> set validIndices"
      by (simp_all only: nth_mem)
    then have "set (indices @ [validIndices ! 0, validIndices ! i, validIndices ! (i + 1)])
        \<subseteq> set indices \<union> set validIndices"
      by simp
    moreover have "set (fan_loop validIndices (i + 1)
          (indices @ [validIndices ! 0, validIndices ! i, validIndices ! (i + 1)]))
        \<subseteq> set (indices @ [validIndices ! 0, validIndices ! i, validIndices ! (i + 1)])
          \<union> set validIndices"
      using True by (rule 1)
    ultimately have "set (fan_loop validIndices (i + 1)
          (indices @ [validIndices ! 0, validIndices ! i, validIndices ! (i + 1)]))
        \<subseteq> set indices \<union> set validIndices"
      by blast
    then show ?thesis
      using True by (subst fan_loop.simps) simp
  next
    case False
    then show ?thesis
      by (subst fan_loop.simps) simp
  qed
qed

lemma region_step_bound:
  "set (region_step lms indices regionIndices) \<subseteq> set indices \<union> {i. i < length lms}"
  using fan_loop_subset [of "filter (\<lambda>i. i < length lms) regionIndices" 1 indices]
  by (auto simp: region_step_def Let_def)

lemma regions_bound:
  "set (foldl (region_step lms) indices regions) \<subseteq> set indices \<union> {i. i < length lms}"
proof (induction regions arbitrary: indices)
  case Nil
  show ?case by simp
next
  case (Cons r regions)
  have "set (foldl (region_step lms) (region_step lms indices r) regions)
      \<subseteq> set (region_step lms indices r) \<union> {i. i < length lms}"
    by (rule Cons.IH)
  with region_step_bound [of lms indices r] show ?case
    by auto
qed

text \<open>The proximity pass emits only \<open>i\<close>, \<open>j\<close> and \<open>k\<close> below the number of landmarks.\<close>

lemma try_triangle_bound:
  "i < length lms \<Longrightarrow> j < length lms \<Longrightarrow>
   set (try_triangle lms i j indices) \<subseteq> set indices \<union> {i. i < length lms}"
  by (auto simp: try_triangle_def Let_def)

lemma inner_loop_bound:
  "i < length lms \<Longrightarrow>
   set (inner_loop lms i j indices) \<subseteq> set indices \<union> {i. i < length lms}"
proof (induction "length lms - j" arbitrary: j indices rule: less_induct)
  case less
  show ?case
  proof (cases "j + step < length lms")
    case True
    then have "length lms - (j + step) < length lms - j"
      by (simp add: step_def)
    then have "set (inner_loop lms i (j + step) (try_triangle lms i j indices))
        \<subseteq> set (try_triangle lms i j indices) \<union> {i. i < length lms}"
      using less.prems by (rule less.hyps)
    moreover have "set (try_triangle lms i j indices) \<subseteq> set indices \<union> {i. i < length lms}"
      using less.prems True by (intro try_triangle_bound) simp_all
    ultimately show ?thesis
      using True by (subst inner_loop.simps) auto
  next
    case False
    then show ?thesis
      by (subst inner_loop.simps) simp
  qed
qed

lemma outer_loop_bound:
  "set (outer_loop lms i indices) \<subseteq> set indices \<union> {i. i < length lms}"
proof (induction lms i indices rule: outer_loop.induct)
  case (1 lms i indices)
  show ?case
  proof (cases "i + step < length lms")
    case True
    then have "i < length lms" by simp
    then have "set (inner_loop lms i (i + step) indices) \<subseteq> set indices \<union> {i. i < length lms}"
      by (rule inner_loop_bound)
    with 1 True show ?thesis
      by (subst outer_loop.simps) auto
  next
    case False
    then show ?thesis
      by (subst outer_loop.simps) simp
  qed
qed

lemma createFaceIndices_bound: "\<forall>i \<in> set (createFaceIndices lms). i < length lms"
  using outer_loop_bound [of lms 0 "foldl (region_step lms) [] faceRegions"]
    regions_bound [of lms "[]" faceRegions]
  by (auto simp: createFaceIndices_def addGeneralFaceTriangulation_def Let_def)

lemma createFaceIndices_empty: "createFaceIndices [] = []"
  by (simp add: createFaceIndices_def addGeneralFaceTriangulation_def faceRegions_def
      region_step_def outer_loop.simps)

text \<open>
  Claim C6: when the landmark array that \<open>createFaceGeometry\<close> uses has exactly 468
  entries, a geometry is returned, its position array has \<open>468 * 3\<close> numbers, and
  every index emitted by the region fans and by the proximity pass is below 468.
\<close>

theorem mesh_of_468_landmarks:
  assumes "primaryLandmarks faceData = Some lms" and "length lms = 468"
  shows "\<exists>g. createFaceGeometry faceData = Inr g
            \<and> length (position g) = 468 * 3
            \<and> (\<forall>i \<in> set (faceIndex g). i < 468)"
  using assms createFaceIndices_bound [of lms]
  by (simp add: createFaceGeometry_def length_vertices)

text \<open>The theorem at 468 copies of the landmark in the middle of the image.\<close>

theorem mesh_of_468_landmarks_witness:
  "primaryLandmarks \<lparr>front = Some (replicate 468 \<lparr>lx = 0.5, ly = 0.5, lz = None\<rparr>),
                     left = None, right = None\<rparr>
     = Some (replicate 468 \<lparr>lx = 0.5, ly = 0.5, lz = None\<rparr>)
   \<and> length (replicate 468 \<lparr>lx = 0.5, ly = 0.5, lz = None\<rparr>) = 468
   \<and> (\<exists>g. createFaceGeometry \<lparr>front = Some (replicate 468 \<lparr>lx = 0.5, ly = 0.5, lz = None\<rparr>),
                                left = None, right = None\<rparr> = Inr g
            \<and> length (position g) = 468 * 3
            \<and> (\<forall>i \<in> set (faceIndex g). i < 468))"
proof -
  have h1: "primaryLandmarks \<lparr>front = Some (replicate 468 \<lparr>lx = 0.5, ly = 0.5, lz = None\<rparr>),
                     left = None, right = None\<rparr>
     = Some (replicate 468 \<lparr>lx = 0.5, ly = 0.5, lz = None\<rparr>)"
    by (simp add: primaryLandmarks_def)
  have h2: "length (replicate 468 \<lparr>lx = 0.5, ly = 0.5, lz = None\<rparr>) = 468"
    by simp
  from h1 h2 mesh_of_468_landmarks [OF h1 h2] show ?thesis
    by (intro conjI)
qed

text \<open>
  Claim C5 (an empty landmark array raises an input error). The code does otherwise:
  for \<open>faceData.landmarks.front = []\<close> the guard \<open>!primaryLandmarks\<close> does not fire,
  \<open>createFaceGeometry\<close> returns a geometry without vertices and without faces, and
  \<open>generateFaceMesh\<close> installs it as the generator's mesh.
\<close>

theorem empty_landmarks_build_empty_mesh:
  "createFaceGeometry \<lparr>front = Some [], left = None, right = None\<rparr>
     = Inr \<lparr>position = [], uv = [], faceIndex = []\<rparr>
   \<and> generateFaceMesh \<lparr>geometry = None, mesh = False\<rparr>
         \<lparr>front = Some [], left = None, right = None\<rparr>
     = Inr \<lparr>geometry = Some \<lparr>position = [], uv = [], faceIndex = []\<rparr>, mesh = True\<rparr>"
  by (simp add: generateFaceMesh_def createFaceGeometry_def primaryLandmarks_def
      createFaceIndices_empty)


section \<open>Facts about the expression deformer\<close>

lemma length_move_y: "length (move_y d orig positions index) = length positions"
  by (simp add: move_y_def Let_def)

lemma nth_move_y:
  "k < length positions \<Longrightarrow>
   move_y d orig positions index ! k
     = (if k = index * 3 + 1 then orig ! k + d else positions ! k)"
  by (simp add: move_y_def Let_def nth_list_update)

lemma length_foldl_move_y:
  "length (foldl (move_y d orig) positions idxs) = length positions"
  by (induction idxs arbitrary: positions) (simp_all add: length_move_y)

text \<open>
  A \<open>forEach\<close> loop sets every slot of its index list to the original value plus
  the offset and leaves the other slots as they were.
\<close>

lemma nth_foldl_move_y:
  "k < length positions \<Longrightarrow>
   foldl (move_y d orig) positions idxs ! k
     = (if k \<in> y_slots idxs then orig ! k + d else positions ! k)"
proof (induction idxs arbitrary: positions)
  case Nil
  show ?case by (simp add: y_slots_def)
next
  case (Cons index idxs)
  have "k < length (move_y d orig positions index)"
    using Cons.prems by (simp add: length_move_y)
  then have "foldl (move_y d orig) (move_y d orig positions index) idxs ! k
      = (if k \<in> y_slots idxs then orig ! k + d else move_y d orig positions index ! k)"
    by (rule Cons.IH)
  then show ?case
    using Cons.prems by (auto simp: nth_move_y y_slots_def)
qed

lemma applyExpressions_geometry:
  "geometry this = Some g \<Longrightarrow> mesh this \<Longrightarrow>
   geometry (applyExpressions this e) = Some (g\<lparr>position := deform e (position g)\<rparr>)
   \<and> mesh (applyExpressions this e)"
  by (simp add: applyExpressions_def deform_def Let_def)

lemma applyExpressions_deform:
  "geometry this = Some g \<Longrightarrow> mesh this \<Longrightarrow>
   positions_of (applyExpressions this e) = deform e (position g)"
  by (simp add: applyExpressions_geometry positions_of_def)

lemma length_deform: "length (deform e base) = length base"
  by (simp add: deform_def Let_def applySmile_def applyFrown_def applyRaisedEyebrows_def
      applySquint_def length_foldl_move_y)

text \<open>
  Every write takes the original value, so on a slot that several active flags
  target the last write wins: squint, then raised eyebrows, then frown, then smile.
\<close>

lemma nth_deform:
  "k < length base \<Longrightarrow>
   deform e base ! k =
     (if squint e \<and> k \<in> y_slots eyeIndices then base ! k + (- 0.02)
      else if raisedEyebrows e \<and> k \<in> y_slots eyebrowIndices then base ! k + 0.03
      else if frown e \<and> k \<in> y_slots mouthCornerIndices then base ! k + (- 0.05)
      else if smile e \<and> k \<in> y_slots mouthCornerIndices then base ! k + 0.05
      else base ! k)"
  by (simp add: deform_def Let_def applySmile_def applyFrown_def applyRaisedEyebrows_def
      applySquint_def length_foldl_move_y nth_foldl_move_y)

lemma mouth_not_eyebrow:
  "index \<in> set mouthCornerIndices \<Longrightarrow> index * 3 + 1 \<notin> y_slots eyebrowIndices"
  by (auto simp: y_slots_def mouthCornerIndices_def eyebrowIndices_def)

lemma mouth_not_eye:
  "index \<in> set mouthCornerIndices \<Longrightarrow> index * 3 + 1 \<notin> y_slots eyeIndices"
  by (auto simp: y_slots_def mouthCornerIndices_def eyeIndices_def)

lemma slot_184: "184 \<in> y_slots mouthCornerIndices \<and> 184 \<notin> y_slots eyebrowIndices
    \<and> 184 \<notin> y_slots eyeIndices"
  by (auto simp: y_slots_def mouthCornerIndices_def eyebrowIndices_def eyeIndices_def)

text \<open>
  Claim C3 (two applications with the same flags give the same buffer; no state is
  carried between calls and the base buffer is not mutated), refuted on the generator
  at rest with the flag \<open>smile\<close>: slot 184 (the y of vertex 61) holds 0 before the
  first call, 0.05 after it and 0.1 after the second call. The call has overwritten the
  buffer it started from, and the second result differs from the first.
\<close>

theorem second_smile_differs:
  "positions_of rest_generator ! 184 = 0
   \<and> positions_of (applyExpressions rest_generator only_smile) ! 184 = 0.05
   \<and> positions_of (applyExpressions (applyExpressions rest_generator only_smile) only_smile) ! 184
       = 0.1
   \<and> positions_of (applyExpressions rest_generator only_smile) \<noteq> positions_of rest_generator
   \<and> positions_of (applyExpressions (applyExpressions rest_generator only_smile) only_smile)
       \<noteq> positions_of (applyExpressions rest_generator only_smile)"
proof -
  let ?g = "\<lparr>position = replicate 1404 (0::real), uv = replicate 936 0, faceIndex = []\<rparr>"
  let ?g1 = "?g\<lparr>position := deform only_smile (position ?g)\<rparr>"
  have g0: "geometry rest_generator = Some ?g" and m0: "mesh rest_generator"
    by (simp_all add: rest_generator_def)
  have zero: "positions_of rest_generator ! 184 = 0"
    by (simp add: positions_of_def rest_generator_def)
  have first: "positions_of (applyExpressions rest_generator only_smile)
      = deform only_smile (position ?g)"
    using g0 m0 by (rule applyExpressions_deform)
  have d1: "deform only_smile (position ?g) ! 184 = 0.05"
    using slot_184 by (simp add: nth_deform only_smile_def)
  have g1: "geometry (applyExpressions rest_generator only_smile) = Some ?g1"
    and m1: "mesh (applyExpressions rest_generator only_smile)"
    using applyExpressions_geometry [OF g0 m0, of only_smile] by simp_all
  have second: "positions_of (applyExpressions (applyExpressions rest_generator only_smile)
        only_smile) = deform only_smile (position ?g1)"
    using g1 m1 by (rule applyExpressions_deform)
  have d2: "deform only_smile (position ?g1) ! 184 = 0.1"
    using slot_184 d1 by (simp add: nth_deform [of 184] length_deform only_smile_def)
  have v0: "positions_of rest_generator ! 184 = 0"
    and v1: "positions_of (applyExpressions rest_generator only_smile) ! 184 = 0.05"
    and v2: "positions_of (applyExpressions (applyExpressions rest_generator only_smile)
        only_smile) ! 184 = 0.1"
    using zero first d1 second d2 by simp_all
  have "positions_of (applyExpressions rest_generator only_smile) \<noteq> positions_of rest_generator"
    using v0 v1 by auto
  moreover have "positions_of (applyExpressions (applyExpressions rest_generator only_smile)
        only_smile) \<noteq> positions_of (applyExpressions rest_generator only_smile)"
    using v1 v2 by auto
  ultimately show ?thesis
    using v0 v1 v2 by (intro conjI)
qed

text \<open>
  Claim C3 as amended. The deformer has no state of its own, but it writes into the
  position buffer of the generator's geometry, and takes the content of that buffer
  at the start of the call as the original. For a generator with a mesh and every
  slot \<open>k\<close> of its buffer, with \<open>d\<close> the offset of the last active flag that targets
  \<open>k\<close> (0 when none does):
  \<^item> after the call the same geometry holds the deformed buffer, of the same length,
    with \<open>base[k] + d\<close> in slot \<open>k\<close>: the base buffer is overwritten;
  \<^item> a second call with the same flags on the same generator starts from the
    deformed buffer and leaves \<open>base[k] + d + d\<close>;
  \<^item> another generator whose buffer holds the same numbers as the base ends with the
    same buffer as the first call.
\<close>

theorem applyExpressions_in_place:
  assumes "geometry this = Some g" and "mesh this" and "k < length (position g)"
    and "geometry this' = Some g'" and "mesh this'" and "position g' = position g"
  shows "\<exists>d. d = (if squint e \<and> k \<in> y_slots eyeIndices then - 0.02
              else if raisedEyebrows e \<and> k \<in> y_slots eyebrowIndices then 0.03
              else if frown e \<and> k \<in> y_slots mouthCornerIndices then - 0.05
              else if smile e \<and> k \<in> y_slots mouthCornerIndices then 0.05
              else 0)
     \<and> geometry (applyExpressions this e)
         = Some (g\<lparr>position := positions_of (applyExpressions this e)\<rparr>)
     \<and> length (positions_of (applyExpressions this e)) = length (position g)
     \<and> positions_of (applyExpressions this e) ! k = position g ! k + d
     \<and> positions_of (applyExpressions (applyExpressions this e) e) ! k
         = position g ! k + d + d
     \<and> positions_of (applyExpressions this' e) = positions_of (applyExpressions this e)"
proof -
  define d :: real where "d = (if squint e \<and> k \<in> y_slots eyeIndices then - 0.02
              else if raisedEyebrows e \<and> k \<in> y_slots eyebrowIndices then 0.03
              else if frown e \<and> k \<in> y_slots mouthCornerIndices then - 0.05
              else if smile e \<and> k \<in> y_slots mouthCornerIndices then 0.05
              else 0)"
  let ?first = "applyExpressions this e"
  have first: "positions_of ?first = deform e (position g)"
    using assms(1,2) by (rule applyExpressions_deform)
  have geo: "geometry ?first = Some (g\<lparr>position := deform e (position g)\<rparr>)"
    and m: "mesh ?first"
    using applyExpressions_geometry [OF assms(1,2), of e] by simp_all
  have len: "length (deform e (position g)) = length (position g)"
    by (rule length_deform)
  have step: "deform e base ! k = base ! k + d" if "k < length base" for base
    using that by (simp add: nth_deform d_def)
  have v1: "deform e (position g) ! k = position g ! k + d"
    using assms(3) by (rule step)
  have second: "positions_of (applyExpressions ?first e)
      = deform e (position (g\<lparr>position := deform e (position g)\<rparr>))"
    using geo m by (rule applyExpressions_deform)
  have v2: "deform e (deform e (position g)) ! k = position g ! k + d + d"
    using step [of "deform e (position g)"] assms(3) len v1 by simp
  have other: "positions_of (applyExpressions this' e) = deform e (position g)"
    using applyExpressions_deform [OF assms(4,5), of e] assms(6) by simp
  show ?thesis
    using geo len v1 v2 other d_def
    by (intro exI [of _ d] conjI) (simp_all add: first second)
qed


text \<open>
  The theorem at the generator at rest, the flag \<open>smile\<close> and slot 184; the other
  generator has the same positions and a different index.
\<close>

theorem applyExpressions_in_place_witness:
  "geometry rest_generator
     = Some \<lparr>position = replicate 1404 0, uv = replicate 936 0, faceIndex = []\<rparr>
   \<and> mesh rest_generator
   \<and> 184 < length (position \<lparr>position = replicate 1404 (0::real), uv = replicate 936 (0::real),
                                faceIndex = []\<rparr>)
   \<and> (\<exists>d. d = (if squint only_smile \<and> 184 \<in> y_slots eyeIndices then - 0.02
              else if raisedEyebrows only_smile \<and> 184 \<in> y_slots eyebrowIndices then 0.03
              else if frown only_smile \<and> 184 \<in> y_slots mouthCornerIndices then - 0.05
              else if smile only_smile \<and> 184 \<in> y_slots mouthCornerIndices then 0.05
              else 0)
     \<and> geometry (applyExpressions rest_generator only_smile)
         = Some (\<lparr>position = replicate 1404 0, uv = replicate 936 0, faceIndex = []\<rparr>
                  \<lparr>position := positions_of (applyExpressions rest_generator only_smile)\<rparr>)
     \<and> length (positions_of (applyExpressions rest_generator only_smile))
         = length (position \<lparr>position = replicate 1404 (0::real), uv = replicate 936 (0::real),
                               faceIndex = []\<rparr>)
     \<and> positions_of (applyExpressions rest_generator only_smile) ! 184
         = position \<lparr>position = replicate 1404 0, uv = replicate 936 0, faceIndex = []\<rparr> ! 184
           + d
     \<and> positions_of (applyExpressions (applyExpressions rest_generator only_smile) only_smile)
           ! 184
         = position \<lparr>position = replicate 1404 0, uv = replicate 936 0, faceIndex = []\<rparr> ! 184
           + d + d
     \<and> positions_of (applyExpressions
           \<lparr>geometry = Some \<lparr>position = replicate 1404 0, uv = [], faceIndex = [0, 1, 2]\<rparr>,
            mesh = True\<rparr> only_smile)
         = positions_of (applyExpressions rest_generator only_smile))"
proof -
  let ?g = "\<lparr>position = replicate 1404 (0::real), uv = replicate 936 (0::real), faceIndex = []\<rparr>"
  let ?g' = "\<lparr>position = replicate 1404 (0::real), uv = [], faceIndex = [0, 1, 2]\<rparr>"
  let ?this' = "\<lparr>geometry = Some ?g', mesh = True\<rparr>"
  have h1: "geometry rest_generator = Some ?g" and h2: "mesh rest_generator"
    by (simp_all add: rest_generator_def)
  have h3: "184 < length (position ?g)"
    by simp
  have h4: "geometry ?this' = Some ?g'" and h5: "mesh ?this'"
    by simp_all
  have h6: "position ?g' = position ?g"
    by simp
  from h1 h2 h3 applyExpressions_in_place [OF h1 h2 h3 h4 h5 h6, of only_smile]
  show ?thesis
    by (intro conjI)
qed

text \<open>
  Claim C4 (with smile and frown both active the offsets add up to a net offset of
  0.0 on the mouth corners), refuted on the generator at rest: the frown is written
  after the smile and replaces it, so the y of vertex 61 moves from 0 to \<open>-0.05\<close>.
\<close>

theorem smile_and_frown_net_offset:
  "positions_of (applyExpressions rest_generator smile_and_frown) ! (61 * 3 + 1)
     - positions_of rest_generator ! (61 * 3 + 1) = - 0.05
   \<and> positions_of (applyExpressions rest_generator smile_and_frown) ! (61 * 3 + 1)
     - positions_of rest_generator ! (61 * 3 + 1) \<noteq> 0"
proof -
  let ?g = "\<lparr>position = replicate 1404 (0::real), uv = replicate 936 0, faceIndex = []\<rparr>"
  have g0: "geometry rest_generator = Some ?g" and m0: "mesh rest_generator"
    by (simp_all add: rest_generator_def)
  have zero: "positions_of rest_generator ! 184 = 0"
    by (simp add: positions_of_def rest_generator_def)
  have after: "positions_of (applyExpressions rest_generator smile_and_frown)
      = deform smile_and_frown (position ?g)"
    using g0 m0 by (rule applyExpressions_deform)
  have "deform smile_and_frown (position ?g) ! 184 = - 0.05"
    using slot_184 by (simp add: nth_deform smile_and_frown_def)
  with zero after show ?thesis
    by simp
qed

text \<open>With the frown active, the smile leaves no trace in the buffer.\<close>

lemma deform_frown_hides_smile:
  assumes "frown e"
  shows "deform e base = deform (e\<lparr>smile := False\<rparr>) base"
proof (rule nth_equalityI)
  show "length (deform e base) = length (deform (e\<lparr>smile := False\<rparr>) base)"
    by (simp add: length_deform)
next
  fix k
  assume "k < length (deform e base)"
  then have "k < length base"
    by (simp add: length_deform)
  then show "deform e base ! k = deform (e\<lparr>smile := False\<rparr>) base ! k"
    using assms by (simp add: nth_deform)
qed

text \<open>
  Claim C4 as amended: when smile and frown are both active, the frown, applied after
  the smile from the same original positions, overwrites it. The buffer is the one
  that the frown without the smile produces, and the y coordinate of each mouth corner
  (vertices 61 and 291) that lies inside the buffer ends exactly 0.05 below its value
  before the call, whatever the other flags are.
\<close>

theorem frown_overwrites_smile:
  assumes "geometry this = Some g" and "mesh this"
    and "smile e" and "frown e"
    and "index \<in> set mouthCornerIndices" and "index * 3 + 1 < length (position g)"
  shows "positions_of (applyExpressions this e)
           = positions_of (applyExpressions this (e\<lparr>smile := False\<rparr>))
       \<and> positions_of (applyExpressions this e) ! (index * 3 + 1)
           - position g ! (index * 3 + 1) = - 0.05"
proof -
  have same: "positions_of (applyExpressions this e)
      = positions_of (applyExpressions this (e\<lparr>smile := False\<rparr>))"
    using assms(1,2) deform_frown_hides_smile [OF assms(4), of "position g"]
    by (simp only: applyExpressions_deform)
  have "index * 3 + 1 \<in> y_slots mouthCornerIndices"
    using assms(5) by (simp add: y_slots_def)
  then have "positions_of (applyExpressions this e) ! (index * 3 + 1)
           - position g ! (index * 3 + 1) = - 0.05"
    using assms mouth_not_eyebrow [of index] mouth_not_eye [of index]
    by (simp add: applyExpressions_deform nth_deform)
  with same show ?thesis
    by (rule conjI)
qed

theorem frown_overwrites_smile_witness:
  "geometry rest_generator
     = Some \<lparr>position = replicate 1404 0, uv = replicate 936 0, faceIndex = []\<rparr>
   \<and> mesh rest_generator \<and> smile smile_and_frown \<and> frown smile_and_frown
   \<and> 291 \<in> set mouthCornerIndices
   \<and> 291 * 3 + 1
       < length (position \<lparr>position = replicate 1404 (0::real), uv = replicate 936 (0::real),
                           faceIndex = []\<rparr>)
   \<and> positions_of (applyExpressions rest_generator smile_and_frown)
       = positions_of (applyExpressions rest_generator (smile_and_frown\<lparr>smile := False\<rparr>))
   \<and> positions_of (applyExpressions rest_generator smile_and_frown) ! (291 * 3 + 1)
       - position \<lparr>position = replicate 1404 0, uv = replicate 936 0, faceIndex = []\<rparr>
           ! (291 * 3 + 1) = - 0.05"
proof -
  let ?g = "\<lparr>position = replicate 1404 (0::real), uv = replicate 936 (0::real), faceIndex = []\<rparr>"
  have h1: "geometry rest_generator = Some ?g" and h2: "mesh rest_generator"
    by (simp_all add: rest_generator_def)
  have h3: "smile smile_and_frown" and h4: "frown smile_and_frown"
    by (simp_all add: smile_and_frown_def)
  have h5: "291 \<in> set mouthCornerIndices"
    by (simp add: mouthCornerIndices_def)
  have h6: "291 * 3 + 1 < length (position ?g)"
    by simp
  note c = frown_overwrites_smile [OF h1 h2 h3 h4 h5 h6]
  from h1 h2 h3 h4 h5 h6 conjunct1 [OF c] conjunct2 [OF c] show ?thesis
    by (intro conjI)
qed

section \<open>Facts about the skin texture\<close>

lemma four_elements:
  "3 < length xs \<Longrightarrow> \<exists>r g b a rest. xs = r # g # b # a # rest"
  by (auto simp: numeral_eq_Suc less_eq_Suc_le Suc_le_length_iff)

text \<open>
  Pixel \<open>p\<close> is handled in round \<open>p\<close> of the loop, with the one random number of
  that round: its three colour channels receive the same noise, alpha is kept.
\<close>

lemma noise_loop_pixel:
  "4 * p + 3 < length data \<Longrightarrow>
   noise_loop random n data ! (4 * p) = add_noise ((random (n + p) - 0.5) * 20) (data ! (4 * p))
   \<and> noise_loop random n data ! (4 * p + 1)
       = add_noise ((random (n + p) - 0.5) * 20) (data ! (4 * p + 1))
   \<and> noise_loop random n data ! (4 * p + 2)
       = add_noise ((random (n + p) - 0.5) * 20) (data ! (4 * p + 2))
   \<and> noise_loop random n data ! (4 * p + 3) = data ! (4 * p + 3)"
proof (induction p arbitrary: n data)
  case 0
  then obtain r g b a rest where "data = r # g # b # a # rest"
    using four_elements [of data] by auto
  then show ?case
    by (simp add: Let_def)
next
  case (Suc p)
  then obtain r g b a rest where d: "data = r # g # b # a # rest"
    using four_elements [of data] by auto
  with Suc.prems have "4 * p + 3 < length rest"
    by simp
  from Suc.IH [OF this, of "Suc n"] show ?case
    by (simp add: d Let_def add.commute)
qed

lemma unat_byte_of_int: "0 \<le> k \<Longrightarrow> k < 256 \<Longrightarrow> int (unat (of_int k :: byte)) = k"
  by (simp add: uint_word_of_int flip: uint_nat)

lemma unat_byte_le: "unat (c :: byte) \<le> 255"
proof -
  have "unat c < 2 ^ LENGTH(8)"
    by (rule unsigned_less)
  then show ?thesis
    by simp
qed

text \<open>Storing a number between 0 and 255 moves it by at most one half.\<close>

lemma ToUint8Clamp_near:
  assumes "0 \<le> v" "v \<le> 255"
  shows "\<bar>real_of_int (int (unat (ToUint8Clamp v))) - v\<bar> \<le> 1 / 2"
proof (cases "v \<le> 0 \<or> 255 \<le> v")
  case True
  then have "v = 0 \<or> v = 255"
    using assms by linarith
  then show ?thesis
    by (auto simp: ToUint8Clamp_def)
next
  case False
  define f where "f = \<lfloor>v\<rfloor>"
  have fl: "real_of_int f \<le> v" "v < real_of_int f + 1"
    unfolding f_def by linarith+
  have f0: "0 \<le> f" "f + 1 \<le> 255"
    using False fl by linarith+
  have a: "int (unat (of_int f :: byte)) = f"
    using f0 by (intro unat_byte_of_int) linarith+
  have b: "int (unat (of_int (f + 1) :: byte)) = f + 1"
    using f0 by (intro unat_byte_of_int) linarith+
  have "ToUint8Clamp v = of_int f \<and> v \<le> real_of_int f + 1 / 2
      \<or> ToUint8Clamp v = of_int (f + 1) \<and> real_of_int f + 1 / 2 \<le> v"
    using False by (auto simp: ToUint8Clamp_def Let_def f_def)
  then show ?thesis
  proof
    assume h: "ToUint8Clamp v = of_int f \<and> v \<le> real_of_int f + 1 / 2"
    then have "real_of_int (int (unat (ToUint8Clamp v))) = real_of_int f"
      by (simp only: a)
    with h fl show ?thesis
      by linarith
  next
    assume h: "ToUint8Clamp v = of_int (f + 1) \<and> real_of_int f + 1 / 2 \<le> v"
    then have "real_of_int (int (unat (ToUint8Clamp v))) = real_of_int (f + 1)"
      by (simp only: b)
    with h fl show ?thesis
      by (simp only: of_int_add of_int_1) linarith
  qed
qed

text \<open>A noise between -10 and 10 moves a channel by at most 10.\<close>

lemma add_noise_near:
  assumes "- 10 \<le> noise" "noise \<le> 10"
  shows "\<bar>int (unat (add_noise noise c)) - int (unat c)\<bar> \<le> 10"
proof -
  define u where "u = real_of_int (int (unat c))"
  define v where "v = max 0 (min 255 (u + noise))"
  have "int (unat c) \<le> 255"
    using unat_byte_le [of c] by linarith
  then have u: "0 \<le> u" "u \<le> 255"
    unfolding u_def by linarith+
  have v: "0 \<le> v" "v \<le> 255"
    by (simp_all add: v_def)
  have "\<bar>v - u\<bar> \<le> 10"
    using assms u unfolding v_def max_def min_def by (auto simp: abs_if)
  moreover have "\<bar>real_of_int (int (unat (ToUint8Clamp v))) - v\<bar> \<le> 1 / 2"
    using v by (rule ToUint8Clamp_near)
  ultimately have "\<bar>real_of_int (int (unat (ToUint8Clamp v))) - u\<bar> \<le> 10 + 1 / 2"
    by linarith
  then have "\<bar>real_of_int (int (unat (ToUint8Clamp v)) - int (unat c))\<bar> \<le> 10 + 1 / 2"
    by (simp only: u_def of_int_diff)
  then have "\<bar>int (unat (ToUint8Clamp v)) - int (unat c)\<bar> \<le> 10"
    by linarith
  moreover have "add_noise noise c = ToUint8Clamp v"
    by (simp add: add_noise_def v_def u_def)
  ultimately show ?thesis
    by (simp only:)
qed

text \<open>
  Claim C9 (the noise of a pixel is drawn independently for R, G and B), refuted on
  the grey pixel \<open>(100, 100, 100, 255)\<close> with the random numbers 0.75, 0.25, 0.5:
  the code uses the first number only and moves all three channels by \<open>+5\<close>, where
  independent draws would give \<open>+5\<close>, \<open>-5\<close> and \<open>0\<close>.
\<close>

theorem grey_pixel_stays_grey:
  "addSkinDetails example_random [100, 100, 100, 255] = [105, 105, 105, 255]
   \<and> spec_independent_noise example_random 0 [100, 100, 100, 255] = [105, 95, 100, 255]
   \<and> addSkinDetails example_random [100, 100, 100, 255]
       \<noteq> spec_independent_noise example_random 0 [100, 100, 100, 255]"
  by (simp add: addSkinDetails_def example_random_def add_noise_def ToUint8Clamp_def)

text \<open>
  Claim C9 as amended: the noise of a pixel is one value \<open>(random - 0.5) * 20\<close>, in
  \<open>[-10, 10)\<close>, shared by its R, G and B channels; each channel is the clamped and
  rounded sum and ends within 10 of its old value; alpha is kept.
\<close>

theorem shared_noise_per_pixel:
  assumes "4 * p + 3 < length data" and "0 \<le> random p" and "random p < 1"
  shows "\<exists>noise. noise = (random p - 0.5) * 20 \<and> - 10 \<le> noise \<and> noise < 10
     \<and> addSkinDetails random data ! (4 * p) = add_noise noise (data ! (4 * p))
     \<and> addSkinDetails random data ! (4 * p + 1) = add_noise noise (data ! (4 * p + 1))
     \<and> addSkinDetails random data ! (4 * p + 2) = add_noise noise (data ! (4 * p + 2))
     \<and> addSkinDetails random data ! (4 * p + 3) = data ! (4 * p + 3)
     \<and> \<bar>int (unat (addSkinDetails random data ! (4 * p))) - int (unat (data ! (4 * p)))\<bar> \<le> 10
     \<and> \<bar>int (unat (addSkinDetails random data ! (4 * p + 1)))
          - int (unat (data ! (4 * p + 1)))\<bar> \<le> 10
     \<and> \<bar>int (unat (addSkinDetails random data ! (4 * p + 2)))
          - int (unat (data ! (4 * p + 2)))\<bar> \<le> 10"
proof -
  define noise where "noise = (random p - 0.5) * 20"
  have range: "- 10 \<le> noise" "noise < 10"
    using assms(2,3) by (simp_all add: noise_def)
  then have le: "noise \<le> 10"
    by simp
  have px: "addSkinDetails random data ! (4 * p) = add_noise noise (data ! (4 * p))"
    "addSkinDetails random data ! (4 * p + 1) = add_noise noise (data ! (4 * p + 1))"
    "addSkinDetails random data ! (4 * p + 2) = add_noise noise (data ! (4 * p + 2))"
    "addSkinDetails random data ! (4 * p + 3) = data ! (4 * p + 3)"
    using noise_loop_pixel [OF assms(1), of random 0]
    by (simp_all add: addSkinDetails_def noise_def)
  have near: "\<bar>int (unat (add_noise noise c)) - int (unat c)\<bar> \<le> 10" for c
    using range(1) le by (rule add_noise_near)
  show ?thesis
    using range px near noise_def by (intro exI [of _ noise] conjI) (simp_all only:)
qed

theorem shared_noise_per_pixel_witness:
  "4 * 0 + 3 < length [100, 100, 100, 255 :: byte]
   \<and> 0 \<le> example_random 0 \<and> example_random 0 < 1
   \<and> (\<exists>noise. noise = (example_random 0 - 0.5) * 20 \<and> - 10 \<le> noise \<and> noise < 10
     \<and> addSkinDetails example_random [100, 100, 100, 255] ! (4 * 0)
         = add_noise noise ([100, 100, 100, 255] ! (4 * 0))
     \<and> addSkinDetails example_random [100, 100, 100, 255] ! (4 * 0 + 1)
         = add_noise noise ([100, 100, 100, 255] ! (4 * 0 + 1))
     \<and> addSkinDetails example_random [100, 100, 100, 255] ! (4 * 0 + 2)
         = add_noise noise ([100, 100, 100, 255] ! (4 * 0 + 2))
     \<and> addSkinDetails example_random [100, 100, 100, 255] ! (4 * 0 + 3)
         = [100, 100, 100, 255] ! (4 * 0 + 3)
     \<and> \<bar>int (unat (addSkinDetails example_random [100, 100, 100, 255] ! (4 * 0)))
          - int (unat ([100, 100, 100, 255 :: byte] ! (4 * 0)))\<bar> \<le> 10
     \<and> \<bar>int (unat (addSkinDetails example_random [100, 100, 100, 255] ! (4 * 0 + 1)))
          - int (unat ([100, 100, 100, 255 :: byte] ! (4 * 0 + 1)))\<bar> \<le> 10
     \<and> \<bar>int (unat (addSkinDetails example_random [100, 100, 100, 255] ! (4 * 0 + 2)))
          - int (unat ([100, 100, 100, 255 :: byte] ! (4 * 0 + 2)))\<bar> \<le> 10)"
proof -
  have h1: "4 * 0 + 3 < length [100, 100, 100, 255 :: byte]"
    by simp
  have h2: "0 \<le> example_random 0" and h3: "example_random 0 < 1"
    by (simp_all add: example_random_def)
  from h1 h2 h3
    shared_noise_per_pixel [where p = 0 and data = "[100, 100, 100, 255]"
      and random = example_random, OF h1 h2 h3]
  show ?thesis
    by (intro conjI)
qed


section \<open>Facts about the normals\<close>

lemma length_normalize_step [simp]: "length (normalize_step i normals) = length normals"
  by (simp add: normalize_step_def Let_def)

lemma num_op_Some: "a \<noteq> None \<Longrightarrow> b \<noteq> None \<Longrightarrow> num_op f a b \<noteq> None"
  by (auto simp: num_op_def)

lemma add_to_numbers:
  "all_numbers m normals \<Longrightarrow> i < m \<Longrightarrow> v \<noteq> None \<Longrightarrow> all_numbers m (add_to normals (Some i) v)"
proof -
  assume a: "all_numbers m normals" "i < m" "v \<noteq> None"
  then have "normals ! i \<noteq> None"
    by (metis all_numbers_def nth_mem)
  with a have "num_op (+) (normals ! i) v \<noteq> None"
    by (intro num_op_Some)
  moreover have "set (normals[i := num_op (+) (normals ! i) v])
      \<subseteq> insert (num_op (+) (normals ! i) v) (set normals)"
    by (rule set_update_subset_insert)
  ultimately show ?thesis
    using a by (auto simp: all_numbers_def add_to_def)
qed

lemma add_normal_numbers:
  assumes "all_numbers m normals" and "i + 2 < m"
    and "fst normal \<noteq> None" and "fst (snd normal) \<noteq> None" and "snd (snd normal) \<noteq> None"
  shows "all_numbers m (add_normal normals (Some i) normal)"
proof -
  obtain n0 n1 n2 where n: "normal = (n0, n1, n2)"
    by (cases normal) auto
  have "all_numbers m (add_to normals (Some i) n0)"
    using assms n by (intro add_to_numbers) simp_all
  then have "all_numbers m (add_to (add_to normals (Some i) n0) (Some (i + 1)) n1)"
    using assms n by (intro add_to_numbers) simp_all
  then have "all_numbers m (add_to (add_to (add_to normals (Some i) n0) (Some (i + 1)) n1)
      (Some (i + 2)) n2)"
    using assms n by (intro add_to_numbers) simp_all
  then show ?thesis
    by (simp add: add_normal_def n plus_slot_def)
qed

lemma face_normal_numbers:
  assumes "i1 + 2 < length vertices" "i2 + 2 < length vertices" "i3 + 2 < length vertices"
  shows "fst (face_normal vertices (Some i1) (Some i2) (Some i3)) \<noteq> None
    \<and> fst (snd (face_normal vertices (Some i1) (Some i2) (Some i3))) \<noteq> None
    \<and> snd (snd (face_normal vertices (Some i1) (Some i2) (Some i3))) \<noteq> None"
  using assms
  by (simp add: face_normal_def Let_def read_vertex_def plus_slot_def num_op_def num_sqrt_def)


lemma face_step_numbers:
  assumes "all_numbers (3 * nv) normals" and "length vertices = 3 * nv"
    and "i + 2 < length faces" and "\<forall>k \<in> set faces. k < nv"
  shows "all_numbers (3 * nv) (face_step vertices faces i normals)"
proof -
  let ?a = "faces ! i * 3" and ?b = "faces ! (i + 1) * 3" and ?c = "faces ! (i + 2) * 3"
  let ?normal = "face_normal vertices (Some ?a) (Some ?b) (Some ?c)"
  have "faces ! i < nv" "faces ! (i + 1) < nv" "faces ! (i + 2) < nv"
    using assms(3,4) by simp_all
  then have r: "?a + 2 < 3 * nv" "?b + 2 < 3 * nv" "?c + 2 < 3 * nv"
    by linarith+
  then have n: "fst ?normal \<noteq> None" "fst (snd ?normal) \<noteq> None" "snd (snd ?normal) \<noteq> None"
    using face_normal_numbers [of ?a vertices ?b ?c] assms(2) by simp_all
  have "all_numbers (3 * nv) (add_normal normals (Some ?a) ?normal)"
    using assms(1) r(1) n by (rule add_normal_numbers)
  then have "all_numbers (3 * nv) (add_normal (add_normal normals (Some ?a) ?normal)
      (Some ?b) ?normal)"
    using r(2) n by (rule add_normal_numbers)
  then have "all_numbers (3 * nv) (add_normal (add_normal (add_normal normals (Some ?a) ?normal)
      (Some ?b) ?normal) (Some ?c) ?normal)"
    using r(3) n by (rule add_normal_numbers)
  then show ?thesis
    using assms(3) by (simp add: face_step_def face_slot_def Let_def)
qed

lemma accumulate_loop_numbers:
  assumes "length vertices = 3 * nv" and "3 dvd length faces" and "\<forall>k \<in> set faces. k < nv"
  shows "3 dvd i \<Longrightarrow> all_numbers (3 * nv) normals \<Longrightarrow>
    all_numbers (3 * nv) (accumulate_loop vertices faces i normals)"
proof (induction "length faces - i" arbitrary: i normals rule: less_induct)
  case less
  show ?case
  proof (cases "i < length faces")
    case True
    obtain a where a: "i = 3 * a"
      using less.prems(1) by (rule dvdE)
    obtain b where b: "length faces = 3 * b"
      using assms(2) by (rule dvdE)
    from True a b have in_range: "i + 2 < length faces"
      by simp
    have "all_numbers (3 * nv) (face_step vertices faces i normals)"
      using less.prems(2) assms(1) in_range assms(3) by (rule face_step_numbers)
    moreover have "3 dvd i + 3"
      using less.prems(1) by simp
    moreover have "length faces - (i + 3) < length faces - i"
      using True by simp
    ultimately have "all_numbers (3 * nv)
        (accumulate_loop vertices faces (i + 3) (face_step vertices faces i normals))"
      using less.hyps by blast
    with True show ?thesis
      by (subst accumulate_loop.simps) simp
  next
    case False
    with less.prems show ?thesis
      by (subst accumulate_loop.simps) simp
  qed
qed

lemma normalized_unit:
  assumes "0 < sqrt (a * a + b * b + c * c)"
  shows "sqrt (a / sqrt (a * a + b * b + c * c) * (a / sqrt (a * a + b * b + c * c))
             + b / sqrt (a * a + b * b + c * c) * (b / sqrt (a * a + b * b + c * c))
             + c / sqrt (a * a + b * b + c * c) * (c / sqrt (a * a + b * b + c * c))) = 1"
proof -
  define L where "L = sqrt (a * a + b * b + c * c)"
  have "0 \<le> a * a + b * b + c * c"
    by simp
  then have sq: "L * L = a * a + b * b + c * c"
    by (simp add: L_def)
  have pos: "0 < L"
    using assms by (simp add: L_def)
  have "a / L * (a / L) + b / L * (b / L) + c / L * (c / L) = (a * a + b * b + c * c) / (L * L)"
    by (simp add: add_divide_distrib)
  also have "\<dots> = 1"
  proof -
    have "L * L \<noteq> 0"
      using pos by simp
    then have "L * L / (L * L) = 1"
      by (rule divide_self)
    then show ?thesis
      by (simp only: sq)
  qed
  finally show ?thesis
    by (simp add: L_def)
qed

lemma zero_length:
  assumes "\<not> 0 < sqrt (a * a + b * b + c * c)"
  shows "a = 0 \<and> b = 0 \<and> c = 0"
proof -
  have nonneg: "0 \<le> a * a + b * b + c * c"
    by simp
  then have "0 \<le> sqrt (a * a + b * b + c * c)"
    by (simp only: real_sqrt_ge_zero)
  with assms have "sqrt (a * a + b * b + c * c) = 0"
    by linarith
  then have "a * a + b * b + c * c = 0"
    by (simp only: real_sqrt_eq_zero_cancel_iff)
  moreover have "0 \<le> a * a" "0 \<le> b * b" "0 \<le> c * c"
    by simp_all
  ultimately have "a * a = 0" "b * b = 0" "c * c = 0"
    by linarith+
  then show ?thesis
    by simp
qed


lemma length_normalize_loop: "length (normalize_loop i normals) = length normals"
proof (induction i normals rule: normalize_loop.induct)
  case (1 i normals)
  show ?case
  proof (cases "i < length normals")
    case True
    with 1 show ?thesis
      by (subst normalize_loop.simps) simp
  next
    case False
    then show ?thesis
      by (subst normalize_loop.simps) simp
  qed
qed

lemma length_mesh_vertices:
  "length (concat (map (\<lambda>l. [ox l, oy l, oz l]) lms)) = 3 * length lms"
  by (induction lms) simp_all

lemma upt_three: "t < m \<Longrightarrow> [3 * t ..< 3 * m] = [3 * t, 3 * t + 1, 3 * t + 2] @ [3 * Suc t ..< 3 * m]"
proof -
  assume "t < m"
  have eq: "Suc (Suc (Suc (3 * t))) = 3 + 3 * t"
    by simp
  show ?thesis
    using \<open>t < m\<close> by (simp add: upt_conv_Cons eq)
qed

lemma topology_loop_upt:
  "t \<le> n div 3 \<Longrightarrow> topology_loop n (3 * t) faces = faces @ [3 * t ..< 3 * (n div 3)]"
proof (induction "n div 3 - t" arbitrary: t faces rule: less_induct)
  case less
  show ?case
  proof (cases "t < n div 3")
    case True
    then have cond: "3 * t + 2 < n"
      by linarith
    have "topology_loop n (3 * Suc t) (faces @ [3 * t, 3 * t + 1, 3 * t + 2])
        = (faces @ [3 * t, 3 * t + 1, 3 * t + 2]) @ [3 * Suc t ..< 3 * (n div 3)]"
      using True by (intro less.hyps) simp_all
    then show ?thesis
      using cond upt_three [OF True]
      by (subst topology_loop.simps) (simp add: add.commute)
  next
    case False
    with less.prems have "t = n div 3"
      by simp
    then have "\<not> 3 * t + 2 < n"
      by linarith
    then show ?thesis
      using \<open>t = n div 3\<close> by (subst topology_loop.simps) simp
  qed
qed

lemma generateFaceTopology_upt: "generateFaceTopology n = [0 ..< 3 * (n div 3)]"
  using topology_loop_upt [of 0 n "[]"] by (simp add: generateFaceTopology_def)

lemma add_normal_update:
  assumes "s + 2 < length normals"
  shows "add_normal normals (Some s) (n0, n1, n2)
    = normals[s := num_op (+) (normals ! s) n0, s + 1 := num_op (+) (normals ! (s + 1)) n1,
              s + 2 := num_op (+) (normals ! (s + 2)) n2]"
  using assms by (simp add: add_normal_def add_to_def plus_slot_def)


lemma face_slot_upt:
  "i < 3 * m \<Longrightarrow> face_slot [0 ..< 3 * m] i = Some (3 * i)"
  by (simp add: face_slot_def)

lemma offset_mod: "3 dvd s \<Longrightarrow> s \<le> k \<Longrightarrow> k < s + 3 \<Longrightarrow> k - s = k mod 3" for k s :: nat
proof -
  assume a: "3 dvd s" "s \<le> k" "k < s + 3"
  from a(1) obtain q where q: "s = 3 * q"
    by (rule dvdE)
  from a have "k = 3 * q + (k - s)" "k - s < 3"
    by (simp_all add: q)
  then have "k mod 3 = (k - s) mod 3"
    by (metis mod_mult_self2_is_0 mod_add_left_eq add_0 mult.commute)
  with \<open>k - s < 3\<close> show ?thesis
    by simp
qed
lemma div_nine: "k div 9 = t \<longleftrightarrow> 9 * t \<le> k \<and> k < 9 * t + 9" for k t :: nat
proof
  assume "k div 9 = t"
  moreover have "9 * (k div 9) \<le> k"
    by simp
  moreover have "k < 9 * (k div 9) + 9"
    using mod_less_divisor [of 9 k] div_mult_mod_eq [of k 9] by linarith
  ultimately show "9 * t \<le> k \<and> k < 9 * t + 9"
    by simp
next
  assume "9 * t \<le> k \<and> k < 9 * t + 9"
  then show "k div 9 = t"
    by (intro div_nat_eqI) simp_all
qed

lemma length_add_normal:
  "s + 2 < length normals \<Longrightarrow> length (add_normal normals (Some s) normal) = length normals"
  by (cases normal) (simp add: add_normal_update)

lemma add_normal_nth:
  assumes "s + 2 < length normals" and "k < length normals"
  shows "add_normal normals (Some s) normal ! k
    = (if s \<le> k \<and> k < s + 3 then num_op (+) (normals ! k) (component normal (k - s))
       else normals ! k)"
proof -
  obtain n0 n1 n2 where n: "normal = (n0, n1, n2)"
    by (cases normal) auto
  consider "k = s" | "k = s + 1" | "k = s + 2" | "k < s \<or> s + 3 \<le> k"
    by linarith
  then show ?thesis
    using assms by cases (auto simp: n add_normal_update component_def)
qed

lemma face_step_nth:
  assumes "t < m" and "9 * m \<le> length normals" and "k < length normals"
  shows "face_step vertices [0 ..< 3 * m] (3 * t) normals ! k
    = (if k div 9 = t
       then num_op (+) (normals ! k) (component (triangle_normal vertices t) (k mod 3))
       else normals ! k)"
proof -
  let ?n = "triangle_normal vertices t"
  let ?a = "add_normal normals (Some (9 * t)) ?n"
  let ?b = "add_normal ?a (Some (9 * t + 3)) ?n"
  let ?c = "add_normal ?b (Some (9 * t + 6)) ?n"
  have s: "face_slot [0 ..< 3 * m] (3 * t) = Some (9 * t)"
    "face_slot [0 ..< 3 * m] (3 * t + 1) = Some (9 * t + 3)"
    "face_slot [0 ..< 3 * m] (3 * t + 2) = Some (9 * t + 6)"
    using assms(1) by (simp_all add: face_slot_upt)
  have step: "face_step vertices [0 ..< 3 * m] (3 * t) normals = ?c"
    unfolding face_step_def Let_def s triangle_normal_def ..
  have r: "9 * t + 8 < length normals"
    using assms(1,2) by linarith
  then have ra: "9 * t + 2 < length normals" and rb: "9 * t + 3 + 2 < length ?a"
    by (simp_all add: length_add_normal)
  have la: "length ?a = length normals"
    using ra by (rule length_add_normal)
  have lb: "length ?b = length normals"
    using rb la by (simp add: length_add_normal)
  have rc: "9 * t + 6 + 2 < length ?b"
    using r lb by simp
  have a: "?a ! k = (if 9 * t \<le> k \<and> k < 9 * t + 3
        then num_op (+) (normals ! k) (component ?n (k - 9 * t)) else normals ! k)"
    using ra assms(3) by (rule add_normal_nth)
  have b: "?b ! k = (if 9 * t + 3 \<le> k \<and> k < 9 * t + 3 + 3
        then num_op (+) (?a ! k) (component ?n (k - (9 * t + 3))) else ?a ! k)"
    using rb assms(3) la by (intro add_normal_nth) simp_all
  have c: "?c ! k = (if 9 * t + 6 \<le> k \<and> k < 9 * t + 6 + 3
        then num_op (+) (?b ! k) (component ?n (k - (9 * t + 6))) else ?b ! k)"
    using rc assms(3) lb by (intro add_normal_nth) simp_all
  have m0: "k - 9 * t = k mod 3" if "9 * t \<le> k" "k < 9 * t + 3"
    using that by (intro offset_mod) simp_all
  have m1: "k - (9 * t + 3) = k mod 3" if "9 * t + 3 \<le> k" "k < 9 * t + 3 + 3"
    using that by (intro offset_mod) simp_all
  have m2: "k - (9 * t + 6) = k mod 3" if "9 * t + 6 \<le> k" "k < 9 * t + 6 + 3"
    using that by (intro offset_mod) simp_all
  consider "9 * t \<le> k \<and> k < 9 * t + 3" | "9 * t + 3 \<le> k \<and> k < 9 * t + 3 + 3"
    | "9 * t + 6 \<le> k \<and> k < 9 * t + 6 + 3" | "k < 9 * t \<or> 9 * t + 9 \<le> k"
    by linarith
  then show ?thesis
  proof cases
    case 1
    then have "k div 9 = t" by (simp add: div_nine)
    with 1 show ?thesis
      unfolding step c b a using m0 by simp
  next
    case 2
    then have "k div 9 = t" by (simp add: div_nine)
    with 2 show ?thesis
      unfolding step c b a using m1 by simp
  next
    case 3
    then have "k div 9 = t" by (simp add: div_nine)
    with 3 show ?thesis
      unfolding step c b a using m2 by simp
  next
    case 4
    then have "k div 9 \<noteq> t" by (auto simp: div_nine)
    with 4 show ?thesis
      unfolding step c b a by auto
  qed
qed


lemma length_face_step:
  assumes "t < m" and "9 * m \<le> length normals"
  shows "length (face_step vertices [0 ..< 3 * m] (3 * t) normals) = length normals"
proof -
  have s: "face_slot [0 ..< 3 * m] (3 * t) = Some (9 * t)"
    "face_slot [0 ..< 3 * m] (3 * t + 1) = Some (9 * t + 3)"
    "face_slot [0 ..< 3 * m] (3 * t + 2) = Some (9 * t + 6)"
    using assms(1) by (simp_all add: face_slot_upt)
  have r: "9 * t + 8 < length normals"
    using assms by linarith
  show ?thesis
    unfolding face_step_def Let_def s using r by (simp add: length_add_normal)
qed

lemma accumulate_loop_nth:
  "u \<le> m \<Longrightarrow> 9 * m \<le> length normals \<Longrightarrow> k < length normals \<Longrightarrow>
   accumulate_loop vertices [0 ..< 3 * m] (3 * u) normals ! k
     = (if 9 * u \<le> k \<and> k < 9 * m
        then num_op (+) (normals ! k) (component (triangle_normal vertices (k div 9)) (k mod 3))
        else normals ! k)"
proof (induction "m - u" arbitrary: u normals rule: less_induct)
  case less
  show ?case
  proof (cases "u < m")
    case True
    let ?next = "face_step vertices [0 ..< 3 * m] (3 * u) normals"
    have len: "length ?next = length normals"
      using True less.prems(2) by (rule length_face_step)
    have step: "?next ! k = (if k div 9 = u
        then num_op (+) (normals ! k) (component (triangle_normal vertices u) (k mod 3))
        else normals ! k)"
      using True less.prems(2,3) by (rule face_step_nth)
    have "accumulate_loop vertices [0 ..< 3 * m] (3 * Suc u) ?next ! k
        = (if 9 * Suc u \<le> k \<and> k < 9 * m
           then num_op (+) (?next ! k) (component (triangle_normal vertices (k div 9)) (k mod 3))
           else ?next ! k)"
      using True less.prems(2,3) len by (intro less.hyps) simp_all
    moreover have "accumulate_loop vertices [0 ..< 3 * m] (3 * u) normals
        = accumulate_loop vertices [0 ..< 3 * m] (3 * Suc u) ?next"
      using True by (subst accumulate_loop.simps) (simp add: add.commute)
    ultimately have loop: "accumulate_loop vertices [0 ..< 3 * m] (3 * u) normals ! k
        = (if 9 * Suc u \<le> k \<and> k < 9 * m
           then num_op (+) (?next ! k) (component (triangle_normal vertices (k div 9)) (k mod 3))
           else ?next ! k)"
      by simp
    consider "k < 9 * u" | "9 * u \<le> k \<and> k < 9 * u + 9" | "9 * u + 9 \<le> k"
      by linarith
    then show ?thesis
    proof cases
      case 1
      then have "k div 9 \<noteq> u"
        by (simp add: div_nine)
      with 1 show ?thesis
        by (simp add: loop step)
    next
      case 2
      then have "k div 9 = u"
        by (simp add: div_nine)
      with 2 True show ?thesis
        by (simp add: loop step)
    next
      case 3
      then have "k div 9 \<noteq> u"
        by (simp add: div_nine)
      with 3 show ?thesis
        by (simp add: loop step)
    qed
  next
    case False
    with less.prems(1) have "u = m"
      by simp
    then have "accumulate_loop vertices [0 ..< 3 * m] (3 * u) normals = normals"
      by (subst accumulate_loop.simps) simp
    moreover have "\<not> (9 * u \<le> k \<and> k < 9 * m)"
      using \<open>u = m\<close> by linarith
    ultimately show ?thesis
      by (simp only: if_False)
  qed
qed


text \<open>The second loop, slot by slot.\<close>

lemma normalize_step_outside:
  "k \<noteq> i \<Longrightarrow> k \<noteq> i + 1 \<Longrightarrow> k \<noteq> i + 2 \<Longrightarrow> normalize_step i normals ! k = normals ! k"
  by (simp add: normalize_step_def Let_def)

lemma normalize_step_local:
  assumes "length ms = length ns" and "ms ! i = ns ! i" and "ms ! (i + 1) = ns ! (i + 1)"
    and "ms ! (i + 2) = ns ! (i + 2)" and "k = i \<or> k = i + 1 \<or> k = i + 2"
    and "i + 2 < length ns"
  shows "normalize_step i ms ! k = normalize_step i ns ! k"
proof -
  define a where "a = read_normal ns i"
  define b where "b = read_normal ns (i + 1)"
  define c where "c = read_normal ns (i + 2)"
  define len where "len = num_sqrt (num_op (+) (num_op (+) (num_op (*) a a) (num_op (*) b b))
      (num_op (*) c c))"
  have r: "read_normal ms i = a" "read_normal ms (i + 1) = b" "read_normal ms (i + 2) = c"
    using assms(1-4) by (simp_all add: read_normal_def a_def b_def c_def)
  have ms: "normalize_step i ms = (if positive len
      then ms[i := num_op (/) a len, i + 1 := num_op (/) b len, i + 2 := num_op (/) c len]
      else ms)"
    unfolding normalize_step_def Let_def r len_def ..
  have ns: "normalize_step i ns = (if positive len
      then ns[i := num_op (/) a len, i + 1 := num_op (/) b len, i + 2 := num_op (/) c len]
      else ns)"
    unfolding normalize_step_def Let_def len_def a_def b_def c_def ..
  have lm: "i + 2 < length ms"
    using assms(1,6) by simp
  from assms(5) show ?thesis
  proof (elim disjE)
    assume "k = i"
    then show ?thesis
      using lm assms(6) assms(2) by (simp add: ms ns)
  next
    assume "k = i + 1"
    then show ?thesis
      using lm assms(6) assms(3) by (simp add: ms ns)
  next
    assume "k = i + 2"
    then show ?thesis
      using lm assms(6) assms(4) by (simp add: ms ns)
  qed
qed

lemma three_div: "k div 3 = u \<longleftrightarrow> 3 * u \<le> k \<and> k < 3 * u + 3" for k u :: nat
proof
  assume "k div 3 = u"
  moreover have "3 * (k div 3) \<le> k"
    by simp
  moreover have "k < 3 * (k div 3) + 3"
    using mod_less_divisor [of 3 k] div_mult_mod_eq [of k 3] by linarith
  ultimately show "3 * u \<le> k \<and> k < 3 * u + 3"
    by simp
next
  assume "3 * u \<le> k \<and> k < 3 * u + 3"
  then show "k div 3 = u"
    by (intro div_nat_eqI) simp_all
qed

lemma normalize_loop_nth:
  "u \<le> nv \<Longrightarrow> length normals = 3 * nv \<Longrightarrow> k < 3 * nv \<Longrightarrow>
   normalize_loop (3 * u) normals ! k
     = (if 3 * u \<le> k then normalize_step (3 * (k div 3)) normals ! k else normals ! k)"
proof (induction "nv - u" arbitrary: u normals rule: less_induct)
  case less
  show ?case
  proof (cases "u < nv")
    case True
    let ?next = "normalize_step (3 * u) normals"
    have len: "length ?next = 3 * nv"
      using less.prems(2) by simp
    have ih: "normalize_loop (3 * Suc u) ?next ! k
        = (if 3 * Suc u \<le> k then normalize_step (3 * (k div 3)) ?next ! k else ?next ! k)"
      using True less.prems(3) len by (intro less.hyps) simp_all
    have unfold: "normalize_loop (3 * u) normals = normalize_loop (3 * Suc u) ?next"
      using True less.prems(2) by (subst normalize_loop.simps) (simp add: add.commute)
    have loop: "normalize_loop (3 * u) normals ! k
        = (if 3 * Suc u \<le> k then normalize_step (3 * (k div 3)) ?next ! k else ?next ! k)"
      using ih by (simp only: unfold)
    consider "k < 3 * u" | "3 * u \<le> k \<and> k < 3 * u + 3" | "3 * u + 3 \<le> k"
      by linarith
    then show ?thesis
    proof cases
      case 1
      then have "?next ! k = normals ! k"
        by (intro normalize_step_outside) simp_all
      with 1 show ?thesis
        by (simp add: loop)
    next
      case 2
      then have "k div 3 = u"
        by (simp add: three_div)
      with 2 show ?thesis
        by (simp add: loop)
    next
      case 3
      define w where "w = k div 3"
      have w: "3 * w \<le> k \<and> k < 3 * w + 3"
        using three_div [of k w] by (simp add: w_def)
      with 3 have "u < w"
        by linarith
      then have out: "3 * w \<noteq> 3 * u" "3 * w \<noteq> 3 * u + 1" "3 * w \<noteq> 3 * u + 2"
        "3 * w + 1 \<noteq> 3 * u" "3 * w + 1 \<noteq> 3 * u + 1" "3 * w + 1 \<noteq> 3 * u + 2"
        "3 * w + 2 \<noteq> 3 * u" "3 * w + 2 \<noteq> 3 * u + 1" "3 * w + 2 \<noteq> 3 * u + 2"
        by linarith+
      have same: "?next ! (3 * w) = normals ! (3 * w)"
        "?next ! (3 * w + 1) = normals ! (3 * w + 1)"
        "?next ! (3 * w + 2) = normals ! (3 * w + 2)"
        by (rule normalize_step_outside [OF out(1,2,3)],
            rule normalize_step_outside [OF out(4,5,6)],
            rule normalize_step_outside [OF out(7,8,9)])
      have "k = 3 * w \<or> k = 3 * w + 1 \<or> k = 3 * w + 2"
        using w by linarith
      moreover have "3 * w + 2 < length normals"
      proof -
        have "3 * w < 3 * nv"
          using w less.prems(3) by linarith
        then have "w < nv"
          by simp
        then show ?thesis
          using less.prems(2) by linarith
      qed
      ultimately have "normalize_step (3 * w) ?next ! k = normalize_step (3 * w) normals ! k"
        using same by (intro normalize_step_local) simp_all
      with 3 show ?thesis
        by (simp add: loop w_def)
    qed
  next
    case False
    with less.prems(1) have "u = nv"
      by simp
    then have "normalize_loop (3 * u) normals = normals"
      using less.prems(2) by (subst normalize_loop.simps) simp
    moreover have "\<not> 3 * u \<le> k"
      using \<open>u = nv\<close> less.prems(3) by linarith
    ultimately show ?thesis
      by (simp only: if_False)
  qed
qed

lemma normalize_step_values:
  assumes "3 * v + 2 < length normals"
    and "normals ! (3 * v) = Some x" and "normals ! (3 * v + 1) = Some y"
    and "normals ! (3 * v + 2) = Some z"
  shows "(normalize_step (3 * v) normals ! (3 * v), normalize_step (3 * v) normals ! (3 * v + 1),
          normalize_step (3 * v) normals ! (3 * v + 2))
    = (if 0 < sqrt (x * x + y * y + z * z)
       then (Some (x / sqrt (x * x + y * y + z * z)), Some (y / sqrt (x * x + y * y + z * z)),
             Some (z / sqrt (x * x + y * y + z * z)))
       else (Some x, Some y, Some z))"
  using assms
  by (simp add: normalize_step_def read_normal_def num_op_def num_sqrt_def positive_def Let_def)


lemma accumulated_nth:
  assumes "length vertices = 3 * n" and "k < 3 * n"
  shows "accumulate_loop vertices [0 ..< 3 * (n div 3)] 0 (replicate (length vertices) (Some 0)) ! k
    = (if k < 9 * (n div 3)
       then num_op (+) (Some 0) (component (triangle_normal vertices (k div 9)) (k mod 3))
       else Some 0)"
proof -
  have "9 * (n div 3) \<le> length (replicate (length vertices) (Some (0::real)))"
    using assms(1) by simp
  moreover have "k < length (replicate (length vertices) (Some (0::real)))"
    using assms by simp
  ultimately have "accumulate_loop vertices [0 ..< 3 * (n div 3)] (3 * 0)
      (replicate (length vertices) (Some 0)) ! k
    = (if 9 * 0 \<le> k \<and> k < 9 * (n div 3)
       then num_op (+) (replicate (length vertices) (Some 0) ! k)
              (component (triangle_normal vertices (k div 9)) (k mod 3))
       else replicate (length vertices) (Some 0) ! k)"
    by (intro accumulate_loop_nth) simp_all
  then show ?thesis
    using assms by simp
qed

lemma triangle_normal_numbers:
  assumes "length vertices = 3 * n" and "t < n div 3"
  shows "\<exists>x y z. triangle_normal vertices t = (Some x, Some y, Some z)"
proof -
  have "9 * t + 8 < length vertices"
    using assms by linarith
  then have "fst (triangle_normal vertices t) \<noteq> None
    \<and> fst (snd (triangle_normal vertices t)) \<noteq> None
    \<and> snd (snd (triangle_normal vertices t)) \<noteq> None"
    unfolding triangle_normal_def by (intro face_normal_numbers) simp_all
  then show ?thesis
    by (cases "triangle_normal vertices t") auto
qed

lemma calculateNormals_triple:
  assumes "length vertices = 3 * n" and "v < n"
  shows "length (calculateNormals vertices [0 ..< 3 * (n div 3)]) = 3 * n"
    and "3 * (n div 3) \<le> v \<Longrightarrow>
      (calculateNormals vertices [0 ..< 3 * (n div 3)] ! (3 * v),
       calculateNormals vertices [0 ..< 3 * (n div 3)] ! (3 * v + 1),
       calculateNormals vertices [0 ..< 3 * (n div 3)] ! (3 * v + 2))
      = (Some 0, Some 0, Some 0)"
    and "v < 3 * (n div 3) \<Longrightarrow> triangle_normal vertices (v div 3) = (Some x, Some y, Some z) \<Longrightarrow>
      (calculateNormals vertices [0 ..< 3 * (n div 3)] ! (3 * v),
       calculateNormals vertices [0 ..< 3 * (n div 3)] ! (3 * v + 1),
       calculateNormals vertices [0 ..< 3 * (n div 3)] ! (3 * v + 2))
      = (if 0 < sqrt (x * x + y * y + z * z)
         then (Some (x / sqrt (x * x + y * y + z * z)), Some (y / sqrt (x * x + y * y + z * z)),
               Some (z / sqrt (x * x + y * y + z * z)))
         else (Some x, Some y, Some z))"
proof -
  let ?faces = "[0 ..< 3 * (n div 3)]"
  let ?acc = "accumulate_loop vertices ?faces 0 (replicate (length vertices) (Some 0))"
  have calc: "calculateNormals vertices ?faces = normalize_loop (3 * 0) ?acc"
    by (simp add: calculateNormals_def Let_def)
  have "all_numbers (3 * n) (replicate (length vertices) (Some 0))"
    using assms(1) by (simp add: all_numbers_def)
  then have "all_numbers (3 * n) ?acc"
    using assms(1) by (intro accumulate_loop_numbers [where nv = n]) auto
  then have len: "length ?acc = 3 * n"
    by (simp add: all_numbers_def)
  show "length (calculateNormals vertices ?faces) = 3 * n"
    using len by (simp add: calc length_normalize_loop)
  have r: "3 * v < 3 * n" "3 * v + 1 < 3 * n" "3 * v + 2 < 3 * n"
    using assms(2) by linarith+
  have d: "(3 * v) div 3 = v" "(3 * v + 1) div 3 = v" "(3 * v + 2) div 3 = v"
    by (simp_all add: three_div)
  have n0: "normalize_loop (3 * 0) ?acc ! (3 * v) = normalize_step (3 * v) ?acc ! (3 * v)"
    using normalize_loop_nth [of 0 n ?acc "3 * v"] len r(1) by (simp add: d)
  have n1: "normalize_loop (3 * 0) ?acc ! (3 * v + 1) = normalize_step (3 * v) ?acc ! (3 * v + 1)"
    using normalize_loop_nth [of 0 n ?acc "3 * v + 1"] len r(2) d(2) by simp
  have n2: "normalize_loop (3 * 0) ?acc ! (3 * v + 2) = normalize_step (3 * v) ?acc ! (3 * v + 2)"
    using normalize_loop_nth [of 0 n ?acc "3 * v + 2"] len r(3) d(3) by simp
  have range: "3 * v + 2 < length ?acc"
    using len r(3) by simp
  {
    assume orphan: "3 * (n div 3) \<le> v"
    then have "\<not> 3 * v < 9 * (n div 3)" "\<not> 3 * v + 1 < 9 * (n div 3)"
      "\<not> 3 * v + 2 < 9 * (n div 3)"
      by linarith+
    then have a: "?acc ! (3 * v) = Some 0" "?acc ! (3 * v + 1) = Some 0"
      "?acc ! (3 * v + 2) = Some 0"
      using accumulated_nth [OF assms(1) r(1)] accumulated_nth [OF assms(1) r(2)]
        accumulated_nth [OF assms(1) r(3)] by simp_all
    have "(normalize_step (3 * v) ?acc ! (3 * v), normalize_step (3 * v) ?acc ! (3 * v + 1),
          normalize_step (3 * v) ?acc ! (3 * v + 2)) = (Some 0, Some 0, Some 0)"
      using normalize_step_values [OF range a] by simp
    then show "(calculateNormals vertices ?faces ! (3 * v),
       calculateNormals vertices ?faces ! (3 * v + 1),
       calculateNormals vertices ?faces ! (3 * v + 2)) = (Some 0, Some 0, Some 0)"
      by (simp only: calc n0 n1 n2)
  }
  {
    assume inside: "v < 3 * (n div 3)"
      and tn: "triangle_normal vertices (v div 3) = (Some x, Some y, Some z)"
    define t where "t = v div 3"
    have v: "3 * t \<le> v \<and> v < 3 * t + 3"
      using three_div [of v t] by (simp add: t_def)
    then have "9 * t \<le> 3 * v \<and> 3 * v < 9 * t + 9"
      "9 * t \<le> 3 * v + 1 \<and> 3 * v + 1 < 9 * t + 9"
      "9 * t \<le> 3 * v + 2 \<and> 3 * v + 2 < 9 * t + 9"
      by linarith+
    then have nine: "(3 * v) div 9 = t" "(3 * v + 1) div 9 = t" "(3 * v + 2) div 9 = t"
      by (simp_all only: div_nine)
    have m: "(3 * v) mod 3 = 0" "(3 * v + 1) mod 3 = 1" "(3 * v + 2) mod 3 = 2"
      using offset_mod [of "3 * v" "3 * v"] offset_mod [of "3 * v" "3 * v + 1"]
        offset_mod [of "3 * v" "3 * v + 2"] by simp_all
    have lt: "3 * v < 9 * (n div 3)" "3 * v + 1 < 9 * (n div 3)" "3 * v + 2 < 9 * (n div 3)"
      using inside by linarith+
    have tn': "triangle_normal vertices t = (Some x, Some y, Some z)"
      using tn by (simp only: t_def)
    have comp: "num_op (+) (Some 0) (component (Some x, Some y, Some z) 0) = Some x"
      "num_op (+) (Some 0) (component (Some x, Some y, Some z) 1) = Some y"
      "num_op (+) (Some 0) (component (Some x, Some y, Some z) 2) = Some z"
      by (simp_all add: component_def num_op_def)
    have a: "?acc ! (3 * v) = Some x" "?acc ! (3 * v + 1) = Some y" "?acc ! (3 * v + 2) = Some z"
      using accumulated_nth [OF assms(1) r(1)] accumulated_nth [OF assms(1) r(2)]
        accumulated_nth [OF assms(1) r(3)]
      by (simp_all only: lt nine m tn' comp if_True)
    show "(calculateNormals vertices ?faces ! (3 * v),
       calculateNormals vertices ?faces ! (3 * v + 1),
       calculateNormals vertices ?faces ! (3 * v + 2))
      = (if 0 < sqrt (x * x + y * y + z * z)
         then (Some (x / sqrt (x * x + y * y + z * z)), Some (y / sqrt (x * x + y * y + z * z)),
               Some (z / sqrt (x * x + y * y + z * z)))
         else (Some x, Some y, Some z))"
      using normalize_step_values [OF range a] by (simp only: calc n0 n1 n2)
  }
qed


text \<open>The mesh of the four example landmarks, computed.\<close>

lemma example_topology: "generateFaceTopology 4 = [0, 1, 2]"
  by (simp add: generateFaceTopology_def topology_loop.simps [of _ 0] topology_loop.simps [of _ 3])

lemma example_face_normal:
  "face_normal [0, 0, 0, 1, 0, 0, 0, 1, 0, 5, 5, 5] (Some 0) (Some 3) (Some 6)
     = (Some 0, Some 0, Some 1)"
  by (simp add: face_normal_def Let_def read_vertex_def plus_slot_def num_op_def num_sqrt_def
      positive_def)

lemma replicate_12: "replicate 12 x = [x, x, x, x, x, x, x, x, x, x, x, x]"
  by (simp add: numeral_eq_Suc)

lemma example_slots: "face_slot [0, 1, 2] 0 = Some 0" "face_slot [0, 1, 2] (0 + 1) = Some 3"
  "face_slot [0, 1, 2] (0 + 2) = Some 6"
  by (simp_all add: face_slot_def)

lemma example_face_step:
  "face_step [0, 0, 0, 1, 0, 0, 0, 1, 0, 5, 5, 5] [0, 1, 2] 0 (replicate 12 (Some 0))
     = [Some 0, Some 0, Some 1, Some 0, Some 0, Some 1, Some 0, Some 0, Some 1,
        Some 0, Some 0, Some 0]"
  unfolding face_step_def Let_def example_slots example_face_normal replicate_12
  by (simp add: add_normal_def add_to_def plus_slot_def num_op_def)


lemma example_accumulate:
  "accumulate_loop [0, 0, 0, 1, 0, 0, 0, 1, 0, 5, 5, 5] [0, 1, 2] 0 (replicate 12 (Some 0))
     = [Some 0, Some 0, Some 1, Some 0, Some 0, Some 1, Some 0, Some 0, Some 1,
        Some 0, Some 0, Some 0]"
proof -
  have "accumulate_loop [0, 0, 0, 1, 0, 0, 0, 1, 0, 5, 5, 5] [0, 1, 2] 0 (replicate 12 (Some 0))
      = accumulate_loop [0, 0, 0, 1, 0, 0, 0, 1, 0, 5, 5, 5] [0, 1, 2] (0 + 3)
          (face_step [0, 0, 0, 1, 0, 0, 0, 1, 0, 5, 5, 5] [0, 1, 2] 0 (replicate 12 (Some 0)))"
    by (subst accumulate_loop.simps) simp
  also have "\<dots> = face_step [0, 0, 0, 1, 0, 0, 0, 1, 0, 5, 5, 5] [0, 1, 2] 0
      (replicate 12 (Some 0))"
    by (subst accumulate_loop.simps) simp
  finally show ?thesis
    by (simp only: example_face_step)
qed

lemma zero_step:
  "normalize_step i (pre @ [Some 0, Some 0, Some 0] @ post) = pre @ [Some 0, Some 0, Some 0] @ post"
  if "length pre = i"
  using that
  by (simp add: normalize_step_def read_normal_def num_op_def num_sqrt_def positive_def Let_def
      nth_append)

lemma unit_step:
  "normalize_step i (pre @ [Some 0, Some 0, Some 1] @ post) = pre @ [Some 0, Some 0, Some 1] @ post"
  if "length pre = i"
  using that
  by (simp add: normalize_step_def read_normal_def num_op_def num_sqrt_def positive_def Let_def
      nth_append list_update_append)


lemma example_normalize:
  "normalize_loop 0 [Some 0, Some 0, Some 1, Some 0, Some 0, Some 1, Some 0, Some 0, Some 1,
        Some 0, Some 0, Some 0]
     = [Some 0, Some 0, Some 1, Some 0, Some 0, Some 1, Some 0, Some 0, Some 1,
        Some 0, Some 0, Some 0]"
proof -
  let ?xs = "[Some 0, Some 0, Some 1, Some 0, Some 0, Some 1, Some 0, Some 0, Some 1,
        Some 0, Some 0, Some (0::real)]"
  have s0: "normalize_step 0 ?xs = ?xs"
    using unit_step [of "[]" 0 "[Some 0, Some 0, Some 1, Some 0, Some 0, Some 1,
        Some 0, Some 0, Some 0]"] by simp
  have s3: "normalize_step 3 ?xs = ?xs"
    using unit_step [of "[Some 0, Some 0, Some 1]" 3 "[Some 0, Some 0, Some 1,
        Some 0, Some 0, Some 0]"] by simp
  have s6: "normalize_step 6 ?xs = ?xs"
    using unit_step [of "[Some 0, Some 0, Some 1, Some 0, Some 0, Some 1]" 6
        "[Some 0, Some 0, Some 0]"] by simp
  have s9: "normalize_step 9 ?xs = ?xs"
    using zero_step [of "[Some 0, Some 0, Some 1, Some 0, Some 0, Some 1,
        Some 0, Some 0, Some 1]" 9 "[]"] by simp
  have "normalize_loop 0 ?xs = normalize_loop 3 ?xs"
    by (subst normalize_loop.simps) (simp add: s0)
  also have "\<dots> = normalize_loop 6 ?xs"
    by (subst normalize_loop.simps) (simp add: s3)
  also have "\<dots> = normalize_loop 9 ?xs"
    by (subst normalize_loop.simps) (simp add: s6)
  also have "\<dots> = normalize_loop 12 ?xs"
    by (subst normalize_loop.simps) (simp add: s9)
  also have "\<dots> = ?xs"
    by (subst normalize_loop.simps) simp
  finally show ?thesis .
qed

lemma example_vertices:
  "concat (map (\<lambda>l. [ox l, oy l, oz l]) corner_and_orphan)
     = [0, 0, 0, 1, 0, 0, 0, 1, 0, 5, 5, 5]"
  by (simp add: corner_and_orphan_def)

lemma example_mesh:
  "mesh_faces (generate3DMesh corner_and_orphan) = [0, 1, 2]
   \<and> mesh_normals (generate3DMesh corner_and_orphan)
     = [Some 0, Some 0, Some 1, Some 0, Some 0, Some 1, Some 0, Some 0, Some 1,
        Some 0, Some 0, Some 0]"
proof -
  have len: "length corner_and_orphan = 4"
    by (simp add: corner_and_orphan_def)
  have "calculateNormals [0, 0, 0, 1, 0, 0, 0, 1, 0, 5, 5, 5] [0, 1, 2]
     = [Some 0, Some 0, Some 1, Some 0, Some 0, Some 1, Some 0, Some 0, Some 1,
        Some 0, Some 0, Some 0]"
  proof -
    have "length [0, 0, 0, 1, 0, 0, 0, 1, 0, 5, 5, 5 :: real] = 12"
      by simp
    then show ?thesis
      by (simp only: calculateNormals_def Let_def example_accumulate example_normalize)
  qed
  then show ?thesis
    by (simp only: generate3DMesh_def Let_def example_vertices len example_topology mesh3d.simps)
qed


text \<open>
  Claim C7 (every normal has length 1, except that a vertex in no triangle gets the
  default normal \<open>(0, 0, 1)\<close>), refuted on the four example landmarks: the only
  triangle is \<open>(0, 1, 2)\<close>, vertex 3 is in no triangle, and its normal, the last three
  numbers of the array, is \<open>(0, 0, 0)\<close>.
\<close>

theorem orphan_vertex_keeps_zero_normal:
  "mesh_faces (generate3DMesh corner_and_orphan) = [0, 1, 2]
   \<and> drop 9 (mesh_normals (generate3DMesh corner_and_orphan)) = [Some 0, Some 0, Some 0]
   \<and> drop 9 (mesh_normals (generate3DMesh corner_and_orphan)) \<noteq> [Some 0, Some 0, Some 1]"
  by (simp add: example_mesh)

text \<open>
  Claim C7 as amended, for the mesh that \<open>generate3DMesh\<close> builds from any list of
  landmarks. The normals array has three numbers for every vertex. A vertex is in a
  triangle exactly when its number is below \<open>3 * (n div 3)\<close>. A vertex in no triangle
  keeps exactly \<open>(0, 0, 0)\<close>; the default \<open>(0, 0, 1)\<close> is never assigned. A vertex of
  triangle \<open>v div 3\<close> has accumulated that triangle's face normal \<open>(x, y, z)\<close>: when
  its length is greater than 0 the vertex normal is \<open>(x, y, z)\<close> divided by that
  length and has Euclidean length 1 within \<open>1e-4\<close> (exactly 1 in exact arithmetic),
  and when its length is 0 (a degenerate triangle) the vertex normal is exactly
  \<open>(0, 0, 0)\<close>.
\<close>

theorem normals_of_generated_mesh:
  assumes "v < length lms"
  shows "length (mesh_normals (generate3DMesh lms)) = 3 * length lms
    \<and> (v \<in> set (mesh_faces (generate3DMesh lms))) = (v < 3 * (length lms div 3))
    \<and> (if 3 * (length lms div 3) \<le> v
       then (mesh_normals (generate3DMesh lms) ! (3 * v),
             mesh_normals (generate3DMesh lms) ! (3 * v + 1),
             mesh_normals (generate3DMesh lms) ! (3 * v + 2)) = (Some 0, Some 0, Some 0)
       else \<exists>x y z.
         face_normal (mesh_vertices (generate3DMesh lms)) (Some (9 * (v div 3)))
             (Some (9 * (v div 3) + 3)) (Some (9 * (v div 3) + 6)) = (Some x, Some y, Some z)
         \<and> (if 0 < sqrt (x * x + y * y + z * z)
            then \<exists>a b c.
              (mesh_normals (generate3DMesh lms) ! (3 * v),
               mesh_normals (generate3DMesh lms) ! (3 * v + 1),
               mesh_normals (generate3DMesh lms) ! (3 * v + 2)) = (Some a, Some b, Some c)
              \<and> a = x / sqrt (x * x + y * y + z * z)
              \<and> b = y / sqrt (x * x + y * y + z * z)
              \<and> c = z / sqrt (x * x + y * y + z * z)
              \<and> \<bar>sqrt (a * a + b * b + c * c) - 1\<bar> \<le> 1 / 10000
            else (mesh_normals (generate3DMesh lms) ! (3 * v),
                  mesh_normals (generate3DMesh lms) ! (3 * v + 1),
                  mesh_normals (generate3DMesh lms) ! (3 * v + 2))
                 = (Some 0, Some 0, Some 0)))"
proof -
  let ?n = "length lms"
  let ?vertices = "concat (map (\<lambda>l. [ox l, oy l, oz l]) lms)"
  let ?faces = "[0 ..< 3 * (?n div 3)]"
  let ?normals = "calculateNormals ?vertices ?faces"
  have lv: "length ?vertices = 3 * ?n"
    by (rule length_mesh_vertices)
  have fields: "mesh_vertices (generate3DMesh lms) = ?vertices"
    "mesh_faces (generate3DMesh lms) = ?faces"
    "mesh_normals (generate3DMesh lms) = ?normals"
    by (simp_all add: generate3DMesh_def Let_def generateFaceTopology_upt)
  have len: "length ?normals = 3 * ?n"
    using lv assms by (rule calculateNormals_triple(1))
  have mem: "(v \<in> set ?faces) = (v < 3 * (?n div 3))"
    by simp
  have triple: "(if 3 * (?n div 3) \<le> v
       then (?normals ! (3 * v), ?normals ! (3 * v + 1), ?normals ! (3 * v + 2))
            = (Some 0, Some 0, Some 0)
       else \<exists>x y z.
         face_normal ?vertices (Some (9 * (v div 3)))
             (Some (9 * (v div 3) + 3)) (Some (9 * (v div 3) + 6)) = (Some x, Some y, Some z)
         \<and> (if 0 < sqrt (x * x + y * y + z * z)
            then \<exists>a b c.
              (?normals ! (3 * v), ?normals ! (3 * v + 1), ?normals ! (3 * v + 2))
                = (Some a, Some b, Some c)
              \<and> a = x / sqrt (x * x + y * y + z * z)
              \<and> b = y / sqrt (x * x + y * y + z * z)
              \<and> c = z / sqrt (x * x + y * y + z * z)
              \<and> \<bar>sqrt (a * a + b * b + c * c) - 1\<bar> \<le> 1 / 10000
            else (?normals ! (3 * v), ?normals ! (3 * v + 1), ?normals ! (3 * v + 2))
                 = (Some 0, Some 0, Some 0)))"
  proof (cases "3 * (?n div 3) \<le> v")
    case True
    then have "(?normals ! (3 * v), ?normals ! (3 * v + 1), ?normals ! (3 * v + 2))
        = (Some 0, Some 0, Some 0)"
      using calculateNormals_triple(2) [OF lv assms] by simp
    with True show ?thesis
      by (simp only: if_True)
  next
    case False
    then have inside: "v < 3 * (?n div 3)"
      by simp
    have "3 * (v div 3) \<le> v"
      by simp
    with inside have "v div 3 < ?n div 3"
      by linarith
    then obtain x y z where tn: "triangle_normal ?vertices (v div 3) = (Some x, Some y, Some z)"
      using triangle_normal_numbers [OF lv] by blast
    note triple_value = calculateNormals_triple(3) [OF lv assms inside tn]
    have inner: "(if 0 < sqrt (x * x + y * y + z * z)
            then \<exists>a b c.
              (?normals ! (3 * v), ?normals ! (3 * v + 1), ?normals ! (3 * v + 2))
                = (Some a, Some b, Some c)
              \<and> a = x / sqrt (x * x + y * y + z * z)
              \<and> b = y / sqrt (x * x + y * y + z * z)
              \<and> c = z / sqrt (x * x + y * y + z * z)
              \<and> \<bar>sqrt (a * a + b * b + c * c) - 1\<bar> \<le> 1 / 10000
            else (?normals ! (3 * v), ?normals ! (3 * v + 1), ?normals ! (3 * v + 2))
                 = (Some 0, Some 0, Some 0))"
    proof (cases "0 < sqrt (x * x + y * y + z * z)")
      case True
      have unit: "sqrt (x / sqrt (x * x + y * y + z * z) * (x / sqrt (x * x + y * y + z * z))
             + y / sqrt (x * x + y * y + z * z) * (y / sqrt (x * x + y * y + z * z))
             + z / sqrt (x * x + y * y + z * z) * (z / sqrt (x * x + y * y + z * z))) = 1"
        using True by (rule normalized_unit)
      have "(?normals ! (3 * v), ?normals ! (3 * v + 1), ?normals ! (3 * v + 2))
          = (Some (x / sqrt (x * x + y * y + z * z)), Some (y / sqrt (x * x + y * y + z * z)),
             Some (z / sqrt (x * x + y * y + z * z)))"
        using triple_value True by (simp only: if_True)
      then have "\<exists>a b c.
              (?normals ! (3 * v), ?normals ! (3 * v + 1), ?normals ! (3 * v + 2))
                = (Some a, Some b, Some c)
              \<and> a = x / sqrt (x * x + y * y + z * z)
              \<and> b = y / sqrt (x * x + y * y + z * z)
              \<and> c = z / sqrt (x * x + y * y + z * z)
              \<and> \<bar>sqrt (a * a + b * b + c * c) - 1\<bar> \<le> 1 / 10000"
        using unit by simp
      with True show ?thesis
        by (simp only: if_True)
    next
      case False
      then have "x = 0 \<and> y = 0 \<and> z = 0"
        by (rule zero_length)
      moreover have "(?normals ! (3 * v), ?normals ! (3 * v + 1), ?normals ! (3 * v + 2))
          = (Some x, Some y, Some z)"
        using triple_value False by (simp only: if_False)
      ultimately have "(?normals ! (3 * v), ?normals ! (3 * v + 1), ?normals ! (3 * v + 2))
          = (Some 0, Some 0, Some 0)"
        by simp
      with False show ?thesis
        by (simp only: if_False)
    qed
    have "face_normal ?vertices (Some (9 * (v div 3)))
             (Some (9 * (v div 3) + 3)) (Some (9 * (v div 3) + 6)) = (Some x, Some y, Some z)"
      using tn by (simp only: triangle_normal_def)
    with inner have "\<exists>x y z.
         face_normal ?vertices (Some (9 * (v div 3)))
             (Some (9 * (v div 3) + 3)) (Some (9 * (v div 3) + 6)) = (Some x, Some y, Some z)
         \<and> (if 0 < sqrt (x * x + y * y + z * z)
            then \<exists>a b c.
              (?normals ! (3 * v), ?normals ! (3 * v + 1), ?normals ! (3 * v + 2))
                = (Some a, Some b, Some c)
              \<and> a = x / sqrt (x * x + y * y + z * z)
              \<and> b = y / sqrt (x * x + y * y + z * z)
              \<and> c = z / sqrt (x * x + y * y + z * z)
              \<and> \<bar>sqrt (a * a + b * b + c * c) - 1\<bar> \<le> 1 / 10000
            else (?normals ! (3 * v), ?normals ! (3 * v + 1), ?normals ! (3 * v + 2))
                 = (Some 0, Some 0, Some 0))"
      by blast
    with False show ?thesis
      by (simp only: if_False)
  qed
  from len mem triple show ?thesis
    unfolding fields by (intro conjI)
qed


text \<open>
  The theorem at vertex 0 of the four example landmarks, a corner of the triangle; its
  normal is \<open>(0, 0, 1)\<close>, the face normal of the triangle.
\<close>

theorem normals_of_generated_mesh_witness:
  "0 < length corner_and_orphan
   \<and> length (mesh_normals (generate3DMesh corner_and_orphan)) = 3 * length corner_and_orphan
    \<and> (0 \<in> set (mesh_faces (generate3DMesh corner_and_orphan))) = (0 < 3 * (length corner_and_orphan div 3))
    \<and> (if 3 * (length corner_and_orphan div 3) \<le> 0
       then (mesh_normals (generate3DMesh corner_and_orphan) ! (3 * 0),
             mesh_normals (generate3DMesh corner_and_orphan) ! (3 * 0 + 1),
             mesh_normals (generate3DMesh corner_and_orphan) ! (3 * 0 + 2)) = (Some 0, Some 0, Some 0)
       else \<exists>x y z.
         face_normal (mesh_vertices (generate3DMesh corner_and_orphan)) (Some (9 * (0 div 3)))
             (Some (9 * (0 div 3) + 3)) (Some (9 * (0 div 3) + 6)) = (Some x, Some y, Some z)
         \<and> (if 0 < sqrt (x * x + y * y + z * z)
            then \<exists>a b c.
              (mesh_normals (generate3DMesh corner_and_orphan) ! (3 * 0),
               mesh_normals (generate3DMesh corner_and_orphan) ! (3 * 0 + 1),
               mesh_normals (generate3DMesh corner_and_orphan) ! (3 * 0 + 2)) = (Some a, Some b, Some c)
              \<and> a = x / sqrt (x * x + y * y + z * z)
              \<and> b = y / sqrt (x * x + y * y + z * z)
              \<and> c = z / sqrt (x * x + y * y + z * z)
              \<and> \<bar>sqrt (a * a + b * b + c * c) - 1\<bar> \<le> 1 / 10000
            else (mesh_normals (generate3DMesh corner_and_orphan) ! (3 * 0),
                  mesh_normals (generate3DMesh corner_and_orphan) ! (3 * 0 + 1),
                  mesh_normals (generate3DMesh corner_and_orphan) ! (3 * 0 + 2))
                 = (Some 0, Some 0, Some 0)))
   \<and> (mesh_normals (generate3DMesh corner_and_orphan) ! (3 * 0),
      mesh_normals (generate3DMesh corner_and_orphan) ! (3 * 0 + 1),
      mesh_normals (generate3DMesh corner_and_orphan) ! (3 * 0 + 2)) = (Some 0, Some 0, Some 1)"
proof -
  have h: "0 < length corner_and_orphan"
    by (simp add: corner_and_orphan_def)
  have e: "(mesh_normals (generate3DMesh corner_and_orphan) ! (3 * 0),
      mesh_normals (generate3DMesh corner_and_orphan) ! (3 * 0 + 1),
      mesh_normals (generate3DMesh corner_and_orphan) ! (3 * 0 + 2)) = (Some 0, Some 0, Some 1)"
    by (simp add: example_mesh)
  note c = normals_of_generated_mesh [OF h]
  from h conjunct1 [OF c] conjunct1 [OF conjunct2 [OF c]] conjunct2 [OF conjunct2 [OF c]] e
  show ?thesis
    by (intro conjI)
qed

end
